theory Spec2Isabelle
  imports Main "HOL-Library.Char_ord" "HOL-Library.List_Lexorder" "HOL-Library.AList"
begin

section \<open>Errors\<close>

text \<open>
  Every rejected promise and every thrown exception of \<^verbatim>\<open>src/lib/main.ts\<close> is a value:
  \<open>Error msg\<close> is \<^verbatim>\<open>new Error(msg)\<close>, \<open>AwsError code\<close> is an error of the AWS SDK with
  that \<^verbatim>\<open>err.code\<close>, \<open>SysError code\<close> is a Node system error (\<^verbatim>\<open>ENOENT\<close>, \<^verbatim>\<open>EISDIR\<close>, ...),
  and \<open>Failure msg\<close> is the rejection of an external tool (the dependency collector).
\<close>

datatype err = Error string | AwsError string | SysError string | Failure string

section \<open>Node's \<^verbatim>\<open>path\<close> module (POSIX flavour)\<close>

text \<open>
  The functions of Node's \<^verbatim>\<open>path\<close> that \<^verbatim>\<open>main.ts\<close> calls, on strings. The last
  component of a path is what remains after trailing slashes are dropped, up to the
  slash before it.
\<close>

definition is_slash :: "char \<Rightarrow> bool" where
  "is_slash c = (c = CHR ''/'')"

definition last_part :: "string \<Rightarrow> string" where
  "last_part p = rev (takeWhile (\<lambda>c. \<not> is_slash c) (dropWhile is_slash (rev p)))"

text \<open>
  The extension of one component: from its last dot on, unless there is no dot, the
  last dot is the component's first character, or the component is \<^verbatim>\<open>..\<close>.
\<close>

definition ext_of :: "string \<Rightarrow> string" where
  "ext_of b =
     (let e = rev (takeWhile (\<lambda>c. c \<noteq> CHR ''.'') (rev b))
      in if CHR ''.'' \<notin> set b \<or> Suc (length e) = length b \<or> b = ''..''
         then [] else CHR ''.'' # e)"

definition extname :: "string \<Rightarrow> string" where
  "extname p = ext_of (last_part p)"

text \<open>
  \<^verbatim>\<open>path.dirname\<close>: the path up to the slash before its last component; \<^verbatim>\<open>.\<close> when there
  is none, \<^verbatim>\<open>/\<close> for a component directly under the root. The first character is never
  taken for a separator of the last component.
\<close>

definition dirname :: "string \<Rightarrow> string" where
  "dirname p =
     (if p = [] then ''.''
      else
        (let hasRoot = is_slash (hd p);
             rest = dropWhile (\<lambda>c. \<not> is_slash c) (dropWhile is_slash (rev (tl p)))
         in if rest = [] then (if hasRoot then ''/'' else ''.'')
            else if hasRoot \<and> tl rest = [] then ''//''
            else hd p # rev (tl rest)))"

text \<open>
  \<^verbatim>\<open>path.parse\<close>: root, directory, base name, extension and name of a path. It scans an
  absolute path from its end down to the character after the root slash, so for a last
  component directly under the root it has seen no slash before that component; its test
  for the component \<^verbatim>\<open>..\<close> then fails, and \<^verbatim>\<open>/..\<close> gets the extension \<^verbatim>\<open>.\<close> and the name \<^verbatim>\<open>.\<close>.
\<close>

record parsed_path =
  pp_root :: string
  pp_dir :: string
  pp_base :: string
  pp_ext :: string
  pp_name :: string

definition parse :: "string \<Rightarrow> parsed_path" where
  "parse p =
     (if p = [] then \<lparr>pp_root = [], pp_dir = [], pp_base = [], pp_ext = [], pp_name = []\<rparr>
      else
        (let isAbsolute = is_slash (hd p);
             root = (if isAbsolute then ''/'' else []);
             rb = dropWhile is_slash (rev (if isAbsolute then tl p else p));
             base = rev (takeWhile (\<lambda>c. \<not> is_slash c) rb);
             rest = dropWhile (\<lambda>c. \<not> is_slash c) rb;
             ext = (if isAbsolute \<and> rest = [] \<and> base = ''..'' then ''.'' else ext_of base)
         in \<lparr>pp_root = root,
             pp_dir = (if rest = [] then root else root @ rev (tl rest)),
             pp_base = base,
             pp_ext = ext,
             pp_name = take (length base - length ext) base\<rparr>))"

text \<open>
  \<^verbatim>\<open>path.normalize\<close>, \<^verbatim>\<open>path.join\<close>, \<^verbatim>\<open>path.resolve\<close> and \<^verbatim>\<open>path.relative\<close> work on the
  segments between slashes: empty segments and \<^verbatim>\<open>.\<close> are dropped, \<^verbatim>\<open>..\<close> removes the
  segment before it, and is kept only in a relative path that has none left.
\<close>

fun split_slash :: "string \<Rightarrow> string list" where
  "split_slash [] = [[]]"
| "split_slash (c # cs) =
     (if is_slash c then [] # split_slash cs
      else (case split_slash cs of [] \<Rightarrow> [[c]] | s # ss \<Rightarrow> (c # s) # ss))"

fun join_slash :: "string list \<Rightarrow> string" where
  "join_slash [] = []"
| "join_slash [s] = s"
| "join_slash (s # t # ss) = s @ ''/'' @ join_slash (t # ss)"

fun norm_segs :: "bool \<Rightarrow> string list \<Rightarrow> string list \<Rightarrow> string list" where
  "norm_segs allowAboveRoot acc [] = rev acc"
| "norm_segs allowAboveRoot acc (s # ss) =
     (if s = [] \<or> s = ''.'' then norm_segs allowAboveRoot acc ss
      else if s = ''..'' then
        (if acc \<noteq> [] \<and> hd acc \<noteq> ''..'' then norm_segs allowAboveRoot (tl acc) ss
         else if allowAboveRoot then norm_segs allowAboveRoot (''..'' # acc) ss
         else norm_segs allowAboveRoot acc ss)
      else norm_segs allowAboveRoot (s # acc) ss)"

definition normalizeString :: "string \<Rightarrow> bool \<Rightarrow> string" where
  "normalizeString p allowAboveRoot = join_slash (norm_segs allowAboveRoot [] (split_slash p))"

definition normalize :: "string \<Rightarrow> string" where
  "normalize p =
     (if p = [] then ''.''
      else
        (let isAbsolute = is_slash (hd p);
             trailingSeparator = is_slash (last p);
             q = normalizeString p (\<not> isAbsolute);
             q1 = (if q = [] \<and> \<not> isAbsolute then ''.'' else q);
             q2 = (if q1 \<noteq> [] \<and> trailingSeparator then q1 @ ''/'' else q1)
         in if isAbsolute then ''/'' @ q2 else q2))"

definition path_join :: "string list \<Rightarrow> string" where
  "path_join args =
     (let joined = filter (\<lambda>a. a \<noteq> []) args
      in if joined = [] then ''.'' else normalize (join_slash joined))"

text \<open>
  \<^verbatim>\<open>path.resolve\<close> reads its arguments from the right up to the first absolute one, and
  falls back on the working directory of the process, which is absolute.
\<close>

fun resolve_from :: "string list \<Rightarrow> string" where
  "resolve_from [] = []"
| "resolve_from (a # as) =
     (if a = [] then resolve_from as
      else if is_slash (hd a) then a @ ''/''
      else resolve_from as @ a @ ''/'')"

definition resolve :: "string \<Rightarrow> string list \<Rightarrow> string" where
  "resolve cwd args =
     (let raw = resolve_from (rev args @ [cwd]);
          resolvedAbsolute = (raw \<noteq> [] \<and> is_slash (hd raw));
          r = normalizeString raw (\<not> resolvedAbsolute)
      in if resolvedAbsolute then ''/'' @ r else if r \<noteq> [] then r else ''.'')"

fun common_prefix :: "'a list \<Rightarrow> 'a list \<Rightarrow> nat" where
  "common_prefix (x # xs) (y # ys) = (if x = y then Suc (common_prefix xs ys) else 0)"
| "common_prefix xs ys = 0"

definition relative :: "string \<Rightarrow> string \<Rightarrow> string \<Rightarrow> string" where
  "relative cwd from to =
     (if from = to then []
      else
        (let f = filter (\<lambda>s. s \<noteq> []) (split_slash (resolve cwd [from]));
             t = filter (\<lambda>s. s \<noteq> []) (split_slash (resolve cwd [to]));
             n = common_prefix f t
         in join_slash (replicate (length f - n) ''..'' @ drop n t)))"

section \<open>Template parsing\<close>

text \<open>
  \<^verbatim>\<open>parseTemplate(text, ext)\<close>, lines 254-263. \<^verbatim>\<open>JSON.parse\<close> and \<^verbatim>\<open>yamlParse\<close> are the
  two external parsers, taken as parameters: each returns the parsed value or the
  rendering of the exception it throws.
\<close>

definition parseTemplate ::
  "(string \<Rightarrow> string + 'v) \<Rightarrow> (string \<Rightarrow> string + 'v) \<Rightarrow> string \<Rightarrow> string \<Rightarrow> err + 'v" where
  "parseTemplate json_parse yamlParse text ext =
     (case json_parse text of
        Inr v \<Rightarrow> Inr v
      | Inl e1 \<Rightarrow>
          if ext = ''json'' then Inl (Error (''Unable to parse JSON template: '' @ e1))
          else (case yamlParse text of
                  Inr v \<Rightarrow> Inr v
                | Inl e2 \<Rightarrow> Inl (Error (''Unable to parse YAML template: '' @ e2))))"


text \<open>
  Lines 285-286 of \<^verbatim>\<open>cloudformationPackage\<close>: the text of the template is parsed with
  the extension that \<^verbatim>\<open>path.extname(templatePath)\<close> returns.
\<close>

definition parseTemplateAt ::
  "(string \<Rightarrow> string + 'v) \<Rightarrow> (string \<Rightarrow> string + 'v) \<Rightarrow> string \<Rightarrow> string \<Rightarrow> err + 'v" where
  "parseTemplateAt json_parse yamlParse templatePath templateText =
     parseTemplate json_parse yamlParse templateText (extname templatePath)"

section \<open>The file system\<close>

text \<open>
  A file system is a tree. A file has its bytes, a directory its entries in the order
  the operating system lists them; both carry an access and a modification time
  (milliseconds). A path is the list of its components below the root.
\<close>

type_synonym path = "string list"

datatype fsnode =
    is_File: File (fdata: string) (atime: int) (mtime: int)
  | is_Dir: Dir (dents: "(string \<times> fsnode) list") (atime: int) (mtime: int)

fun lookup :: "fsnode \<Rightarrow> path \<Rightarrow> fsnode option" where
  "lookup n [] = Some n"
| "lookup (File d a m) (x # xs) = None"
| "lookup (Dir es a m) (x # xs) =
     (case map_of es x of None \<Rightarrow> None | Some c \<Rightarrow> lookup c xs)"

text \<open>\<^verbatim>\<open>fs.Stats\<close>, as far as \<^verbatim>\<open>main.ts\<close> reads it.\<close>

record stats =
  isDirectory :: bool
  st_atime :: int
  st_mtime :: int

definition stat :: "fsnode \<Rightarrow> path \<Rightarrow> err + stats" where
  "stat root p =
     (case lookup root p of
        None \<Rightarrow> Inl (SysError ''ENOENT'')
      | Some n \<Rightarrow> Inr \<lparr>isDirectory = is_Dir n, st_atime = atime n, st_mtime = mtime n\<rparr>)"

definition readdir :: "fsnode \<Rightarrow> path \<Rightarrow> err + string list" where
  "readdir root p =
     (case lookup root p of
        None \<Rightarrow> Inl (SysError ''ENOENT'')
      | Some (File d a m) \<Rightarrow> Inl (SysError ''ENOTDIR'')
      | Some (Dir es a m) \<Rightarrow> Inr (map fst es))"

definition readFile :: "fsnode \<Rightarrow> path \<Rightarrow> err + string" where
  "readFile root p =
     (case lookup root p of
        None \<Rightarrow> Inl (SysError ''ENOENT'')
      | Some (File d a m) \<Rightarrow> Inr d
      | Some (Dir es a m) \<Rightarrow> Inl (SysError ''EISDIR''))"

text \<open>\<^verbatim>\<open>Promise.all(paths.map((p) => fse.stat(p)))\<close>: all the stats, or the first failure.\<close>

fun stat_all :: "fsnode \<Rightarrow> path list \<Rightarrow> err + stats list" where
  "stat_all root [] = Inr []"
| "stat_all root (p # ps) =
     (case stat root p of
        Inl e \<Rightarrow> Inl e
      | Inr st \<Rightarrow> (case stat_all root ps of Inl e \<Rightarrow> Inl e | Inr sts \<Rightarrow> Inr (st # sts)))"

text \<open>\<^verbatim>\<open>fse.utimes(path, atime, mtime)\<close>: sets both times of an existing entry.\<close>

fun utimes :: "fsnode \<Rightarrow> path \<Rightarrow> int \<Rightarrow> int \<Rightarrow> err + fsnode" where
  "utimes (File d a0 m0) [] a m = Inr (File d a m)"
| "utimes (Dir es a0 m0) [] a m = Inr (Dir es a m)"
| "utimes (File d a0 m0) (x # xs) a m = Inl (SysError ''ENOTDIR'')"
| "utimes (Dir es a0 m0) (x # xs) a m =
     (case map_of es x of
        None \<Rightarrow> Inl (SysError ''ENOENT'')
      | Some c \<Rightarrow>
          (case utimes c xs a m of
             Inl e \<Rightarrow> Inl e
           | Inr c' \<Rightarrow> Inr (Dir (AList.update x c' es) a0 m0)))"

text \<open>
  \<^verbatim>\<open>fse.writeFile(path, data)\<close> at time \<open>t\<close>: overwrites a file, or creates it as the
  last entry of its directory (whose modification time then changes); a directory at
  the path, or a missing parent, is an error.
\<close>

fun writeFile :: "fsnode \<Rightarrow> path \<Rightarrow> string \<Rightarrow> int \<Rightarrow> err + fsnode" where
  "writeFile (File d a m) [] data t = Inr (File data a t)"
| "writeFile (Dir es a m) [] data t = Inl (SysError ''EISDIR'')"
| "writeFile (File d a m) (x # xs) data t = Inl (SysError ''ENOTDIR'')"
| "writeFile (Dir es a m) (x # xs) data t =
     (case map_of es x of
        None \<Rightarrow>
          if xs = [] then Inr (Dir (es @ [(x, File data t t)]) a t)
          else Inl (SysError ''ENOENT'')
      | Some c \<Rightarrow>
          (case writeFile c xs data t of
             Inl e \<Rightarrow> Inl e
           | Inr c' \<Rightarrow> Inr (Dir (AList.update x c' es) a m)))"

text \<open>
  Exclusive creation of a new entry (\<^verbatim>\<open>mkdir\<close>, \<^verbatim>\<open>open\<close> with \<^verbatim>\<open>O_CREAT | O_EXCL\<close>), as the
  \<^verbatim>\<open>tmp\<close> package does it.
\<close>

fun mknod :: "fsnode \<Rightarrow> path \<Rightarrow> fsnode \<Rightarrow> int \<Rightarrow> err + fsnode" where
  "mknod n [] new t = Inl (SysError ''EEXIST'')"
| "mknod (File d a m) (x # xs) new t = Inl (SysError ''ENOTDIR'')"
| "mknod (Dir es a m) (x # xs) new t =
     (case map_of es x of
        None \<Rightarrow>
          if xs = [] then Inr (Dir (es @ [(x, new)]) a t)
          else Inl (SysError ''ENOENT'')
      | Some c \<Rightarrow>
          (case mknod c xs new t of
             Inl e \<Rightarrow> Inl e
           | Inr c' \<Rightarrow> Inr (Dir (AList.update x c' es) a m)))"

text \<open>\<^verbatim>\<open>fse.remove(path)\<close>: removes the entry and all below it; a missing path is no error.\<close>

fun remove :: "fsnode \<Rightarrow> path \<Rightarrow> int \<Rightarrow> fsnode" where
  "remove n [] t = n"
| "remove (File d a m) (x # xs) t = File d a m"
| "remove (Dir es a m) (x # xs) t =
     (case map_of es x of
        None \<Rightarrow> Dir es a m
      | Some c \<Rightarrow>
          if xs = [] then Dir (AList.delete x es) a t
          else Dir (AList.update x (remove c xs t) es) a m)"

section \<open>\<^verbatim>\<open>fsWalk\<close>\<close>

text \<open>
  Lines 69-82. The loop keeps the source's stack: \<^verbatim>\<open>todo.pop()\<close> takes the last element,
  \<^verbatim>\<open>todo.push(...)\<close> appends. The callback may do anything to the state \<open>'w\<close> the walk
  runs in (\<open>fsof\<close> reads the file system out of it) and may reject, so the loop need
  not end: it runs on fuel, one unit for each test of \<^verbatim>\<open>todo.length > 0\<close>, and \<open>None\<close>
  is running out of it. A result is how the promise settles, with the state then.
\<close>

fun fsWalk_loop ::
  "nat \<Rightarrow> ('w \<Rightarrow> fsnode) \<Rightarrow> (path \<Rightarrow> stats \<Rightarrow> 'w \<Rightarrow> err + 'w) \<Rightarrow> (path \<times> stats) list \<Rightarrow> 'w
     \<Rightarrow> ((err + unit) \<times> 'w) option" where
  "fsWalk_loop 0 fsof cb todo w = None"
| "fsWalk_loop (Suc k) fsof cb todo w =
     (if todo = [] then Some (Inr (), w)
      else
        (case last todo of
           (fpath, st) \<Rightarrow>
             (case cb fpath st w of
                Inl e \<Rightarrow> Some (Inl e, w)
              | Inr w1 \<Rightarrow>
                  if isDirectory st then
                    (case readdir (fsof w1) fpath of
                       Inl e \<Rightarrow> Some (Inl e, w1)
                     | Inr entries \<Rightarrow>
                         (let paths = map (\<lambda>e. fpath @ [e]) (rev (sort entries))
                          in case stat_all (fsof w1) paths of
                               Inl e \<Rightarrow> Some (Inl e, w1)
                             | Inr sts \<Rightarrow>
                                 fsWalk_loop k fsof cb (butlast todo @ zip paths sts) w1))
                  else fsWalk_loop k fsof cb (butlast todo) w1)))"

definition fsWalk ::
  "nat \<Rightarrow> ('w \<Rightarrow> fsnode) \<Rightarrow> path \<Rightarrow> (path \<Rightarrow> stats \<Rightarrow> 'w \<Rightarrow> err + 'w) \<Rightarrow> 'w
     \<Rightarrow> ((err + unit) \<times> 'w) option" where
  "fsWalk fuel fsof topDir cb w =
     (case stat (fsof w) topDir of
        Inl e \<Rightarrow> Some (Inl e, w)
      | Inr st \<Rightarrow> fsWalk_loop fuel fsof cb [(topDir, st)] w)"

section \<open>The process, its environment and the external tools\<close>

text \<open>
  The state \<^verbatim>\<open>main.ts\<close> acts on: the file system, the working directory and the
  \<^verbatim>\<open>NODE_PATH\<close> variable of the process (\<open>None\<close> is unset), the clock, the counter behind
  the names of temporary files, the object store, and the traces of the calls made to
  the dependency collector and to the object store. \<^verbatim>\<open>fse.remove(stageDir)\<close> of line
  143 is started and not awaited: it is recorded as pending.
\<close>

datatype s3_bucket = Owned (objects: "(string \<times> string) list") | Denied string

datatype s3_call =
    HeadBucket string
  | CreateBucket string
  | ListObjectsV2 string nat string
  | Upload string string string string

record world =
  files :: fsnode
  proc_cwd :: string
  env_NODE_PATH :: "string option"
  clock :: int
  tmp_seed :: nat
  collector_calls :: "string list list"
  unawaited_removes :: "path list"
  s3_buckets :: "string \<Rightarrow> s3_bucket option"
  s3_calls :: "s3_call list"

text \<open>
  What the repository does not contain is a parameter: the directory for temporary
  files and the random part of the names the \<^verbatim>\<open>tmp\<close> package draws in it,
  \<^verbatim>\<open>require.resolve("tsify")\<close> (tsify is a development dependency, so it may be
  missing), the dependency collector \<^verbatim>\<open>collect-js-deps\<close> (given its arguments and the
  state of the process, the file system it leaves, or its failure), the \<^verbatim>\<open>zip\<close> program
  and the digest functions. \<^verbatim>\<open>zip -q -r -X archive .\<close> is run inside the staging
  directory: what it writes is a function of the tree it finds there, by the names,
  bytes and modification times of the entries; \<^verbatim>\<open>-X\<close> leaves the other attributes out.
  It yields its exit code and the bytes of the archive.
\<close>

record platform =
  tmpdir :: path
  tmpName :: "nat \<Rightarrow> string"
  require_resolve_tsify :: "err + string"
  collectJsDeps :: "string list \<Rightarrow> world \<Rightarrow> err + fsnode"
  zip_tool :: "fsnode \<Rightarrow> err + nat \<times> string"
  md5 :: "string \<Rightarrow> string"
  hex :: "string \<Rightarrow> string"
  base64 :: "string \<Rightarrow> string"

text \<open>
  \<^verbatim>\<open>ICollectOpts\<close> and \<^verbatim>\<open>IS3Opts\<close> (lines 23-32 and 160-165), without the logger. The
  cache is a \<^verbatim>\<open>Map\<close> from entry paths to archive paths; it and the array of arguments
  are objects the caller shares, so a call returns the options as it leaves them.
\<close>

type_synonym ZipFileCache = "string \<Rightarrow> path option"

record ICollectOpts =
  browserifyArgs :: "string list option"
  tsconfig :: "string option"
  nodePath :: "string option"
  cache :: "ZipFileCache option"

record IS3Opts = ICollectOpts +
  region :: "string option"
  s3Bucket :: "string option"
  s3Prefix :: "string option"
  s3EndpointUrl :: "string option"

record IS3Location =
  bucket :: string
  key :: string

definition defaultBucket :: string where
  "defaultBucket = ''aws-lambda-upload''"

section \<open>Temporary names, \<^verbatim>\<open>spawn\<close> and the archive\<close>

definition path_str :: "path \<Rightarrow> string" where
  "path_str p = concat (map (\<lambda>c. ''/'' @ c) p)"

definition tmp_dir :: "platform \<Rightarrow> string \<Rightarrow> world \<Rightarrow> (err + path) \<times> world" where
  "tmp_dir P prefix w =
     (let p = tmpdir P @ [prefix @ tmpName P (tmp_seed w)];
          w1 = w\<lparr>tmp_seed := Suc (tmp_seed w)\<rparr>
      in case mknod (files w) p (Dir [] (clock w) (clock w)) (clock w) of
           Inl e \<Rightarrow> (Inl e, w1)
         | Inr f \<Rightarrow> (Inr p, w1\<lparr>files := f\<rparr>))"

definition tmp_file :: "platform \<Rightarrow> string \<Rightarrow> string \<Rightarrow> world \<Rightarrow> (err + path) \<times> world" where
  "tmp_file P prefix postfix w =
     (let p = tmpdir P @ [prefix @ tmpName P (tmp_seed w) @ postfix];
          w1 = w\<lparr>tmp_seed := Suc (tmp_seed w)\<rparr>
      in case mknod (files w) p (File [] (clock w) (clock w)) (clock w) of
           Inl e \<Rightarrow> (Inl e, w1)
         | Inr f \<Rightarrow> (Inr p, w1\<lparr>files := f\<rparr>))"

fun show_nat :: "nat \<Rightarrow> string" where
  "show_nat n =
     (if n < 10 then [''0123456789'' ! n]
      else show_nat (n div 10) @ [''0123456789'' ! (n mod 10)])"

text \<open>
  \<^verbatim>\<open>spawn\<close>, lines 48-60: rejects with the error of the child process, or with its exit
  code when that is not 0.
\<close>

definition spawn :: "err + nat \<Rightarrow> err + unit" where
  "spawn outcome =
     (case outcome of
        Inl e \<Rightarrow> Inl e
      | Inr code \<Rightarrow>
          if code \<noteq> 0 then Inl (Error (''Command failed with exit code '' @ show_nat code))
          else Inr ())"

text \<open>
  A tree seen through a change of its bytes and times. What \<^verbatim>\<open>zip -X\<close> reads of a tree
  is everything but the access times.
\<close>

fun view :: "(string \<Rightarrow> string) \<Rightarrow> (int \<Rightarrow> int) \<Rightarrow> (int \<Rightarrow> int) \<Rightarrow> fsnode \<Rightarrow> fsnode" where
  "view fd fa fm (File d a m) = File (fd d) (fa a) (fm m)"
| "view fd fa fm (Dir es a m) = Dir (map (\<lambda>(n, c). (n, view fd fa fm c)) es) (fa a) (fm m)"

definition zip_view :: "fsnode \<Rightarrow> fsnode" where
  "zip_view = view (\<lambda>d. d) (\<lambda>a. 0) (\<lambda>m. m)"

text \<open>
  The child process of \<^verbatim>\<open>spawn("zip", ["-q", "-r", "-X", zipPath, "."], {cwd: stageDir})\<close>:
  its outcome (an error of the spawn, or the exit code) and the state it leaves. A
  missing working directory fails the spawn; \<^verbatim>\<open>zip\<close> exits with 15 when it cannot create
  the archive.
\<close>

definition run_zip :: "platform \<Rightarrow> path \<Rightarrow> path \<Rightarrow> world \<Rightarrow> (err + nat) \<times> world" where
  "run_zip P zipPath dir w =
     (case lookup (files w) dir of
        None \<Rightarrow> (Inl (SysError ''ENOENT''), w)
      | Some t \<Rightarrow>
          if is_File t then (Inl (SysError ''ENOTDIR''), w)
          else
            (case zip_tool P (zip_view t) of
               Inl e \<Rightarrow> (Inl e, w)
             | Inr (code, bytes) \<Rightarrow>
                 if code \<noteq> 0 then (Inr code, w)
                 else
                   (case writeFile (files w) zipPath bytes (clock w) of
                      Inl e \<Rightarrow> (Inr 15, w)
                    | Inr f \<Rightarrow> (Inr 0, w\<lparr>files := f\<rparr>))))"

section \<open>\<^verbatim>\<open>_makeTmpZipFile\<close>\<close>

text \<open>
  Lines 95-98: the arguments for the collector. \<^verbatim>\<open>args.push\<close> changes the caller's
  array when there is one.
\<close>

definition collect_args ::
  "platform \<Rightarrow> 'a ICollectOpts_scheme \<Rightarrow> err + string list \<times> 'a ICollectOpts_scheme" where
  "collect_args P options =
     (let args = (case browserifyArgs options of None \<Rightarrow> [] | Some a \<Rightarrow> a)
      in case tsconfig options of
           None \<Rightarrow> Inr (args, options)
         | Some ts \<Rightarrow>
             if ts = [] then Inr (args, options)
             else
               (case require_resolve_tsify P of
                  Inl e \<Rightarrow> Inl e
                | Inr tsify \<Rightarrow>
                    (let args' = args @ [''-p'', ''['', tsify, ''-p'', ts, '']'']
                     in Inr (args',
                          if browserifyArgs options = None then options
                          else options\<lparr>browserifyArgs := Some args'\<rparr>))))"

text \<open>
  Assigning to a property of \<^verbatim>\<open>process.env\<close> stores the value converted to a string:
  \<^verbatim>\<open>process.env.NODE_PATH = undefined\<close> leaves the variable set, to \<^verbatim>\<open>"undefined"\<close>.
\<close>

definition env_string :: "string option \<Rightarrow> string" where
  "env_string v = (case v of None \<Rightarrow> ''undefined'' | Some s \<Rightarrow> s)"

text \<open>Lines 112-121: the helper file at the top of the staging directory.\<close>

definition stub_contents :: "string \<Rightarrow> string" where
  "stub_contents requirePath =
     ''module.exports = require('' @ [CHR 0x22] @ ''./'' @ requirePath @ [CHR 0x22] @ '');''
       @ [CHR 0x0A]"

definition stub_path :: "path \<Rightarrow> string \<Rightarrow> path" where
  "stub_path stageDir startPath = stageDir @ [pp_name (parse startPath) @ ''.js'']"

definition write_stub :: "string \<Rightarrow> path \<Rightarrow> world \<Rightarrow> err + world" where
  "write_stub startPath stageDir w =
     (if dirname startPath \<noteq> ''.'' then
        (let start = parse startPath;
             stubPath = stub_path stageDir startPath;
             requirePath = relative (proc_cwd w) [] (path_join [pp_dir start, pp_name start])
         in case writeFile (files w) stubPath (stub_contents requirePath) (clock w) of
              Inl e \<Rightarrow> Inl e
            | Inr f \<Rightarrow> Inr (w\<lparr>files := f\<rparr>))
      else Inr w)"

text \<open>Line 125: the callback that sets the modification time of an entry to 0.\<close>

definition set_times_cb :: "path \<Rightarrow> stats \<Rightarrow> world \<Rightarrow> err + world" where
  "set_times_cb fpath st w =
     (case utimes (files w) fpath (st_atime st) 0 of
        Inl e \<Rightarrow> Inl e
      | Inr f \<Rightarrow> Inr (w\<lparr>files := f\<rparr>))"

text \<open>
  Lines 104-139, the body of \<^verbatim>\<open>try\<close>: collect, write the helper file, reset the times,
  build the archive, store it in the cache. A result is the settled value, the options
  and the state at that moment.
\<close>

definition with_node_path :: "'a ICollectOpts_scheme \<Rightarrow> world \<Rightarrow> world" where
  "with_node_path options w =
     (case nodePath options of
        None \<Rightarrow> w
      | Some np \<Rightarrow> w\<lparr>env_NODE_PATH := Some np\<rparr>)"

definition collector_argv :: "path \<Rightarrow> string list \<Rightarrow> string \<Rightarrow> string list" where
  "collector_argv stageDir args startPath = [''--outdir'', path_str stageDir] @ args @ [startPath]"

definition makeTmpZipFile_try ::
  "platform \<Rightarrow> nat \<Rightarrow> string \<Rightarrow> string list \<Rightarrow> 'a ICollectOpts_scheme \<Rightarrow> path \<Rightarrow> world
     \<Rightarrow> ((err + path) \<times> 'a ICollectOpts_scheme \<times> world) option" where
  "makeTmpZipFile_try P fuel startPath args options stageDir w0 =
     (let w1 = with_node_path options w0;
          argv = collector_argv stageDir args startPath;
          w2 = w1\<lparr>collector_calls := collector_calls w1 @ [argv]\<rparr>
      in case collectJsDeps P argv w1 of
           Inl e \<Rightarrow> Some (Inl e, options, w2)
         | Inr f \<Rightarrow>
             (case write_stub startPath stageDir (w2\<lparr>files := f\<rparr>) of
                Inl e \<Rightarrow> Some (Inl e, options, w2\<lparr>files := f\<rparr>)
              | Inr w3 \<Rightarrow>
                  (case fsWalk fuel files stageDir set_times_cb w3 of
                     None \<Rightarrow> None
                   | Some (Inl e, w4) \<Rightarrow> Some (Inl e, options, w4)
                   | Some (Inr u, w4) \<Rightarrow>
                       (case tmp_file P ''aws-lambda-'' ''.zip'' w4 of
                          (Inl e, w5) \<Rightarrow> Some (Inl e, options, w5)
                        | (Inr zipPath, w5) \<Rightarrow>
                            (let w6 = w5\<lparr>files := remove (files w5) zipPath (clock w5)\<rparr>
                             in case run_zip P zipPath stageDir w6 of
                                  (outcome, w7) \<Rightarrow>
                                    (case spawn outcome of
                                       Inl e \<Rightarrow> Some (Inl e, options, w7)
                                     | Inr u' \<Rightarrow>
                                         Some (Inr zipPath,
                                           (case cache options of
                                              None \<Rightarrow> options
                                            | Some c \<Rightarrow>
                                                options\<lparr>cache := Some (c(startPath \<mapsto> zipPath))\<rparr>),
                                           w7)))))))"

text \<open>
  Lines 88-145. The cache is consulted first; \<^verbatim>\<open>NODE_PATH\<close> is read before the staging
  directory is made, and \<^verbatim>\<open>finally\<close> assigns it back and starts the removal of the
  staging directory.
\<close>

definition makeTmpZipFile ::
  "platform \<Rightarrow> nat \<Rightarrow> string \<Rightarrow> 'a ICollectOpts_scheme \<Rightarrow> world
     \<Rightarrow> ((err + path) \<times> 'a ICollectOpts_scheme \<times> world) option" where
  "makeTmpZipFile P fuel startPath options w =
     (case (case cache options of None \<Rightarrow> None | Some c \<Rightarrow> c startPath) of
        Some cached \<Rightarrow> Some (Inr cached, options, w)
      | None \<Rightarrow>
          (case collect_args P options of
             Inl e \<Rightarrow> Some (Inl e, options, w)
           | Inr (args, options1) \<Rightarrow>
               (let prevNodePath = env_NODE_PATH w
                in case tmp_dir P ''aws-lambda-'' w of
                     (Inl e, w1) \<Rightarrow> Some (Inl e, options1, w1)
                   | (Inr stageDir, w1) \<Rightarrow>
                       (case makeTmpZipFile_try P fuel startPath args options1 stageDir w1 of
                          None \<Rightarrow> None
                        | Some (r, options2, w2) \<Rightarrow>
                            Some (r, options2,
                              w2\<lparr>env_NODE_PATH := Some (env_string prevNodePath),
                                 unawaited_removes := unawaited_removes w2 @ [stageDir]\<rparr>)))))"

section \<open>The object store and \<^verbatim>\<open>packageZipS3\<close>\<close>

text \<open>
  The object store by what its operations answer. A bucket that exists is the
  caller's own, with its objects, or is closed to the caller, with the error code of
  the refusal (\<^verbatim>\<open>Forbidden\<close> for a bucket of another account). A listing returns the
  keys that start with the prefix in ascending order, at most \<^verbatim>\<open>MaxKeys\<close> of them. An
  upload is checked against its \<^verbatim>\<open>ContentMD5\<close>. Each call is recorded.
\<close>

definition headBucket :: "string \<Rightarrow> world \<Rightarrow> (err + unit) \<times> world" where
  "headBucket b w =
     (case s3_buckets w b of
        None \<Rightarrow> Inl (AwsError ''NotFound'')
      | Some (Owned objs) \<Rightarrow> Inr ()
      | Some (Denied code) \<Rightarrow> Inl (AwsError code),
      w\<lparr>s3_calls := s3_calls w @ [HeadBucket b]\<rparr>)"

definition createBucket :: "string \<Rightarrow> world \<Rightarrow> (err + unit) \<times> world" where
  "createBucket b w =
     (let w1 = w\<lparr>s3_calls := s3_calls w @ [CreateBucket b]\<rparr>
      in case s3_buckets w b of
           None \<Rightarrow> (Inr (), w1\<lparr>s3_buckets := (s3_buckets w)(b \<mapsto> Owned [])\<rparr>)
         | Some (Owned objs) \<Rightarrow> (Inl (AwsError ''BucketAlreadyOwnedByYou''), w1)
         | Some (Denied code) \<Rightarrow> (Inl (AwsError ''BucketAlreadyExists''), w1))"

definition listObjectsV2 :: "string \<Rightarrow> nat \<Rightarrow> string \<Rightarrow> world \<Rightarrow> (err + string list) \<times> world" where
  "listObjectsV2 b maxKeys prefix w =
     (case s3_buckets w b of
        None \<Rightarrow> Inl (AwsError ''NoSuchBucket'')
      | Some (Owned objs) \<Rightarrow>
          Inr (take maxKeys (sort (filter (\<lambda>k. take (length prefix) k = prefix) (map fst objs))))
      | Some (Denied code) \<Rightarrow> Inl (AwsError ''AccessDenied''),
      w\<lparr>s3_calls := s3_calls w @ [ListObjectsV2 b maxKeys prefix]\<rparr>)"

definition upload ::
  "platform \<Rightarrow> string \<Rightarrow> string \<Rightarrow> string \<Rightarrow> string \<Rightarrow> world \<Rightarrow> (err + unit) \<times> world" where
  "upload P b k body contentMD5 w =
     (let w1 = w\<lparr>s3_calls := s3_calls w @ [Upload b k body contentMD5]\<rparr>
      in case s3_buckets w b of
           None \<Rightarrow> (Inl (AwsError ''NoSuchBucket''), w1)
         | Some (Owned objs) \<Rightarrow>
             if contentMD5 \<noteq> base64 P (md5 P body) then (Inl (AwsError ''BadDigest''), w1)
             else (Inr (), w1\<lparr>s3_buckets := (s3_buckets w)(b \<mapsto> Owned (AList.update k body objs))\<rparr>)
         | Some (Denied code) \<Rightarrow> (Inl (AwsError ''AccessDenied''), w1))"

definition err_code :: "err \<Rightarrow> string option" where
  "err_code e = (case e of AwsError c \<Rightarrow> Some c | SysError c \<Rightarrow> Some c | _ \<Rightarrow> None)"

text \<open>Lines 189-202: check the bucket, and create it if needed.\<close>

definition forbidden_message :: "string \<Rightarrow> string" where
  "forbidden_message b =
     ''Can'' @ [CHR 0x27] @ ''t read s3://'' @ b @ '': grant AWS permissions or change --s3-bucket''"

definition ensure_bucket :: "string \<Rightarrow> world \<Rightarrow> (err + unit) \<times> world" where
  "ensure_bucket b w =
     (case headBucket b w of
        (Inr u, w1) \<Rightarrow> (Inr (), w1)
      | (Inl e, w1) \<Rightarrow>
          if err_code e = Some ''Forbidden'' then (Inl (Error (forbidden_message b)), w1)
          else if err_code e \<noteq> Some ''NotFound'' then (Inl e, w1)
          else createBucket b w1)"

text \<open>
  Lines 207-225: the key from the checksum of the bytes, the check for an object at
  that key, the upload.
\<close>

definition s3_key :: "platform \<Rightarrow> string \<Rightarrow> string \<Rightarrow> string" where
  "s3_key P s3Prefix' zipData =
     (let checksumHex = hex P (md5 P zipData);
          prefix = (if s3Prefix' \<noteq> [] \<and> last s3Prefix' \<noteq> CHR ''/'' then s3Prefix' @ ''/''
                    else s3Prefix')
      in prefix @ checksumHex @ ''.zip'')"

definition store_archive ::
  "platform \<Rightarrow> string \<Rightarrow> string \<Rightarrow> string \<Rightarrow> world \<Rightarrow> (err + IS3Location) \<times> world" where
  "store_archive P b s3Prefix' zipData w =
     (let checksumB64 = base64 P (md5 P zipData);
          k = s3_key P s3Prefix' zipData
      in case listObjectsV2 b 1 k w of
           (Inl e, w1) \<Rightarrow> (Inl e, w1)
         | (Inr contents, w1) \<Rightarrow>
             if contents \<noteq> [] \<and> hd contents = k then (Inr \<lparr>bucket = b, key = k\<rparr>, w1)
             else
               (case upload P b k zipData checksumB64 w1 of
                  (Inl e, w2) \<Rightarrow> (Inl e, w2)
                | (Inr u, w2) \<Rightarrow> (Inr \<lparr>bucket = b, key = k\<rparr>, w2)))"

text \<open>
  Lines 178-179: \<^verbatim>\<open>options.s3Bucket || defaultBucket\<close> and \<^verbatim>\<open>options.s3Prefix || ""\<close>.
\<close>

definition s3Bucket_of :: "'a IS3Opts_scheme \<Rightarrow> string" where
  "s3Bucket_of options =
     (case s3Bucket options of
        None \<Rightarrow> defaultBucket
      | Some s \<Rightarrow> if s = [] then defaultBucket else s)"

definition s3Prefix_of :: "'a IS3Opts_scheme \<Rightarrow> string" where
  "s3Prefix_of options = (case s3Prefix options of None \<Rightarrow> [] | Some s \<Rightarrow> s)"

text \<open>Lines 204-225: build the archive, read it, store it.\<close>

definition package_and_store ::
  "platform \<Rightarrow> nat \<Rightarrow> string \<Rightarrow> 'a IS3Opts_scheme \<Rightarrow> world
     \<Rightarrow> ((err + IS3Location) \<times> 'a IS3Opts_scheme \<times> world) option" where
  "package_and_store P fuel startPath options w1 =
     (case makeTmpZipFile P fuel startPath options w1 of
        None \<Rightarrow> None
      | Some (Inl e, options1, w2) \<Rightarrow> Some (Inl e, options1, w2)
      | Some (Inr tmpPath, options1, w2) \<Rightarrow>
          (case readFile (files w2) tmpPath of
             Inl e \<Rightarrow> Some (Inl e, options1, w2)
           | Inr zipData \<Rightarrow>
               (case store_archive P (s3Bucket_of options) (s3Prefix_of options) zipData w2 of
                  (r, w3) \<Rightarrow> Some (r, options1, w3))))"

text \<open>Lines 176-226.\<close>

definition packageZipS3 ::
  "platform \<Rightarrow> nat \<Rightarrow> string \<Rightarrow> 'a IS3Opts_scheme \<Rightarrow> world
     \<Rightarrow> ((err + IS3Location) \<times> 'a IS3Opts_scheme \<times> world) option" where
  "packageZipS3 P fuel startPath options w =
     (case ensure_bucket (s3Bucket_of options) w of
        (Inl e, w1) \<Rightarrow> Some (Inl e, options, w1)
      | (Inr u, w1) \<Rightarrow> package_and_store P fuel startPath options w1)"

section \<open>Notions the properties are stated with\<close>

text \<open>
  The names and kinds of a tree (\<open>shape\<close>), and its names, kinds and bytes
  (\<open>content_view\<close>): what is left when the times, or the times and the bytes, are
  forgotten.
\<close>

definition shape :: "fsnode \<Rightarrow> fsnode" where
  "shape = view (\<lambda>d. []) (\<lambda>a. 0) (\<lambda>m. 0)"

definition content_view :: "fsnode \<Rightarrow> fsnode" where
  "content_view = view (\<lambda>d. d) (\<lambda>a. 0) (\<lambda>m. 0)"

text \<open>
  The tree the collector leaves in the staging directory of a call of \<^verbatim>\<open>_makeTmpZipFile\<close>
  that misses the cache, when the call gets that far.
\<close>

definition staged_tree :: "platform \<Rightarrow> string \<Rightarrow> 'a ICollectOpts_scheme \<Rightarrow> world \<Rightarrow> fsnode option" where
  "staged_tree P startPath options w =
     (case collect_args P options of
        Inl e \<Rightarrow> None
      | Inr (args, options1) \<Rightarrow>
          (case tmp_dir P ''aws-lambda-'' w of
             (Inl e, w1) \<Rightarrow> None
           | (Inr stageDir, w1) \<Rightarrow>
               (case collectJsDeps P (collector_argv stageDir args startPath)
                       (with_node_path options1 w1) of
                  Inl e \<Rightarrow> None
                | Inr f \<Rightarrow> lookup f stageDir)))"

text \<open>No directory lists a name twice.\<close>

fun wf_tree :: "fsnode \<Rightarrow> bool" where
  "wf_tree (File d a m) = True"
| "wf_tree (Dir es a m) = (distinct (map fst es) \<and> list_all (\<lambda>(n, c). wf_tree c) es)"

text \<open>
  The children of a node as \<^verbatim>\<open>fsWalk\<close> meets them: the names that \<^verbatim>\<open>readdir\<close> lists, sorted,
  each with the entry a path ending in that name reaches. \<open>visit_order\<close> is the order
  that results: a node, then its children's subtrees in turn.
\<close>

definition kids :: "fsnode \<Rightarrow> (string \<times> fsnode) list" where
  "kids t =
     (case t of
        File d a m \<Rightarrow> []
      | Dir es a m \<Rightarrow> map (\<lambda>e. (e, the (map_of es e))) (sort (map fst es)))"

function visit_order :: "path \<Rightarrow> fsnode \<Rightarrow> path list" where
  "visit_order p t = p # concat (map (\<lambda>(e, c). visit_order (p @ [e]) c) (kids t))"
  by pat_completeness auto
termination
proof (relation "measure (\<lambda>(p, t). size t)", simp, simp)
  fix t :: fsnode and x :: "string \<times> fsnode" and e c
  assume x: "x \<in> set (kids t)" and xe: "(e, c) = x"
  have mem: "size v < Suc (size_list (size_prod (\<lambda>x. 0) size) es)"
    if "(k, v) \<in> set es" for es :: "(string \<times> fsnode) list" and k v
    using that by (induction es) auto
  from x xe obtain es a m where t: "t = Dir es a m" and e: "e \<in> set (map fst es)"
    and c: "c = the (map_of es e)"
    by (auto simp: kids_def split: fsnode.splits)
  from e obtain v where v: "map_of es e = Some v"
    by (metis domD dom_map_of_conv_image_fst list.set_map)
  then have "(e, v) \<in> set es" by (rule map_of_SomeD)
  then show "size c < size t" using mem [of e v es] t c v by simp
qed

text \<open>
  The lexicographic preorder of a tree: a directory, then the subtrees of its entries
  in the order of their names. \<open>entries\<close> lists every entry of the tree once, in the
  order of storage.
\<close>

fun lex_preorder :: "path \<Rightarrow> fsnode \<Rightarrow> path list" where
  "lex_preorder p (File d a m) = [p]"
| "lex_preorder p (Dir es a m) =
     p # concat (map (\<lambda>(n, c). lex_preorder (p @ [n]) c) (sort_key fst es))"

fun entries :: "path \<Rightarrow> fsnode \<Rightarrow> path list" where
  "entries p (File d a m) = [p]"
| "entries p (Dir es a m) = p # concat (map (\<lambda>(n, c). entries (p @ [n]) c) es)"

text \<open>
  A callback observed: \<open>logged cb\<close> does what \<open>cb\<close> does and notes the path it was
  called with. \<open>steps Q cb ps w w'\<close>: calling \<open>cb\<close> on the paths \<open>ps\<close> in turn, each time
  with some stats that satisfy \<open>Q\<close>, leads from \<open>w\<close> to \<open>w'\<close> with no rejection.
\<close>

definition logged ::
  "(path \<Rightarrow> stats \<Rightarrow> 'w \<Rightarrow> err + 'w) \<Rightarrow> path \<Rightarrow> stats \<Rightarrow> 'w \<times> path list \<Rightarrow> err + 'w \<times> path list" where
  "logged cb fpath st v =
     (case cb fpath st (fst v) of
        Inl e \<Rightarrow> Inl e
      | Inr w' \<Rightarrow> Inr (w', snd v @ [fpath]))"

inductive steps ::
  "(path \<Rightarrow> stats \<Rightarrow> bool) \<Rightarrow> (path \<Rightarrow> stats \<Rightarrow> 'w \<Rightarrow> err + 'w) \<Rightarrow> path list \<Rightarrow> 'w \<Rightarrow> 'w \<Rightarrow> bool"
  for Q cb where
  steps_Nil: "steps Q cb [] w w"
| steps_Cons: "Q p st \<Longrightarrow> cb p st w = Inr w1 \<Longrightarrow> steps Q cb ps w1 w2 \<Longrightarrow> steps Q cb (p # ps) w w2"

definition sub :: "fsnode \<Rightarrow> path \<Rightarrow> fsnode" where
  "sub root p = the (lookup root p)"

definition the_stat :: "fsnode \<Rightarrow> path \<Rightarrow> stats" where
  "the_stat root p =
     \<lparr>isDirectory = is_Dir (sub root p), st_atime = atime (sub root p),
      st_mtime = mtime (sub root p)\<rparr>"

definition todo_ok :: "(path \<Rightarrow> stats \<Rightarrow> bool) \<Rightarrow> fsnode \<Rightarrow> path \<times> stats \<Rightarrow> bool" where
  "todo_ok Q S i =
     (lookup S (fst i) \<noteq> None \<and> isDirectory (snd i) = is_Dir (sub S (fst i)) \<and> Q (fst i) (snd i))"

definition visits :: "fsnode \<Rightarrow> (path \<times> stats) list \<Rightarrow> path list" where
  "visits S todo = concat (map (\<lambda>i. visit_order (fst i) (sub S (fst i))) (rev todo))"

text \<open>Two states that differ at most in the file system and the counter of temporary names.\<close>

definition only_files :: "world \<Rightarrow> world \<Rightarrow> bool" where
  "only_files w w' =
     (proc_cwd w' = proc_cwd w \<and> env_NODE_PATH w' = env_NODE_PATH w \<and> clock w' = clock w
      \<and> collector_calls w' = collector_calls w \<and> unawaited_removes w' = unawaited_removes w
      \<and> s3_buckets w' = s3_buckets w \<and> s3_calls w' = s3_calls w)"

section \<open>Concrete inputs\<close>

text \<open>
  Two parsers that accept one text each; a collector that fails on \<^verbatim>\<open>missing.js\<close> and
  otherwise leaves a fixed tree, its times counted from the clock, in the directory named
  after \<^verbatim>\<open>--outdir\<close>; an archiver that renders what it reads; a process in \<^verbatim>\<open>/proj\<close> with no
  \<^verbatim>\<open>NODE_PATH\<close>, and the same process later; a platform without tsify and options that ask
  for it; a file system without the directory for temporary files; staging directories in
  which a stub meets a file of its name.
\<close>

definition json_only :: "string \<Rightarrow> string + nat" where
  "json_only s = (if s = ''{}'' then Inr 0 else Inl ''SyntaxError'')"

definition yaml_only :: "string \<Rightarrow> string + nat" where
  "yaml_only s = (if s = ''a: 1'' then Inr 1 else Inl ''YAMLException'')"

definition to_path :: "string \<Rightarrow> path" where
  "to_path s = filter (\<lambda>c. c \<noteq> []) (split_slash s)"

definition example_staged :: fsnode where
  "example_staged =
     Dir [(''node_modules'', Dir [(''dep'', Dir [(''package.json'', File ''{}'' 11 12)] 13 14)] 15 16),
          (''lib'', Dir [(''bar.js'', File ''bar'' 21 22)] 23 24)] 31 32"

definition example_collect :: "string list \<Rightarrow> world \<Rightarrow> err + fsnode" where
  "example_collect argv w =
     (if last argv = ''missing.js'' then Inl (Failure ''Cannot find module'')
      else mknod (remove (files w) (to_path (argv ! 1)) (clock w)) (to_path (argv ! 1))
             (view (\<lambda>d. d) (\<lambda>a. a + clock w) (\<lambda>m. m + clock w) example_staged) (clock w))"

fun example_render :: "fsnode \<Rightarrow> string" where
  "example_render (File d a m) = ''F<'' @ d @ '';'' @ show_nat (nat m) @ ''>''"
| "example_render (Dir es a m) =
     ''D<'' @ concat (map (\<lambda>(n, c). n @ ''='' @ example_render c) es) @ '';''
       @ show_nat (nat m) @ ''>''"

definition example_platform :: platform where
  "example_platform =
     \<lparr>tmpdir = [''tmp''], tmpName = show_nat,
      require_resolve_tsify = Inr ''/proj/node_modules/tsify/index.js'',
      collectJsDeps = example_collect,
      zip_tool = (\<lambda>t. Inr (0, example_render t)),
      md5 = (\<lambda>s. show_nat (length s)), hex = (\<lambda>s. s), base64 = rev\<rparr>"

definition example_world :: world where
  "example_world =
     \<lparr>files = Dir [(''tmp'', Dir [] 1 1), (''proj'', Dir [] 2 2)] 3 3,
      proc_cwd = ''/proj'', env_NODE_PATH = None, clock = 1000, tmp_seed = 0,
      collector_calls = [], unawaited_removes = [],
      s3_buckets = (\<lambda>b. None), s3_calls = []\<rparr>"

definition example_staged_world :: world where
  "example_staged_world =
     example_world\<lparr>files := Dir [(''tmp'', Dir [(''stage'', example_staged)] 1 1)] 3 3\<rparr>"

definition example_options :: ICollectOpts where
  "example_options =
     \<lparr>browserifyArgs = None, tsconfig = None, nodePath = None, cache = Some (\<lambda>p. None)\<rparr>"

definition example_cached :: ICollectOpts where
  "example_cached =
     example_options\<lparr>cache := Some (\<lambda>p. if p = ''lib/bar.js'' then Some [''tmp'', ''old.zip''] else None)\<rparr>"

definition example_s3_options :: IS3Opts where
  "example_s3_options =
     \<lparr>browserifyArgs = None, tsconfig = None, nodePath = None, cache = None,
      region = None, s3Bucket = None, s3Prefix = Some ''pre'', s3EndpointUrl = None\<rparr>"

definition example_forbidden_world :: world where
  "example_forbidden_world =
     example_world\<lparr>s3_buckets :=
       (\<lambda>b. if b = ''aws-lambda-upload'' then Some (Denied ''Forbidden'')
            else if b = ''elsewhere'' then Some (Denied ''PermanentRedirect'')
            else if b = ''mine'' then Some (Owned [])
            else None)\<rparr>"

definition example_no_tsify :: platform where
  "example_no_tsify =
     example_platform\<lparr>require_resolve_tsify := Inl (Error ''Cannot find module tsify'')\<rparr>"

definition example_ts_options :: ICollectOpts where
  "example_ts_options = example_options\<lparr>tsconfig := Some ''tsconfig.json''\<rparr>"

definition example_no_tmp_world :: world where
  "example_no_tmp_world = example_world\<lparr>files := Dir [(''proj'', Dir [] 2 2)] 3 3\<rparr>"

definition example_later_world :: world where
  "example_later_world = example_world\<lparr>clock := 2000, tmp_seed := 7\<rparr>"

definition example_collision_world :: world where
  "example_collision_world =
     example_world\<lparr>files :=
       Dir [(''tmp'', Dir [(''stage'',
              Dir [(''foo.js'', File ''exports.n = 1;'' 41 42),
                   (''lib'', Dir [(''foo.js'', File ''module.exports = 2;'' 43 44)] 45 46)] 47 48)]
            1 1)] 3 3\<rparr>"

definition example_top_world :: world where
  "example_top_world =
     example_world\<lparr>files :=
       Dir [(''tmp'', Dir [(''stage'', Dir [(''foo.js'', File ''exports.handler = run;'' 51 52)] 53 54)]
            1 1)] 3 3\<rparr>"

section \<open>Template parsing: the extension never selects the JSON-only branch\<close>

lemma ext_of_shape: "ext_of b = [] \<or> hd (ext_of b) = CHR ''.''"
  by (simp add: ext_of_def Let_def)

lemma extname_not_json: "extname p \<noteq> ''json''"
  using ext_of_shape [of "last_part p"] by (auto simp: extname_def)

section \<open>The walk visits a tree in the order of \<open>visit_order\<close>\<close>

lemma lookup_append: "lookup t (p @ q) = (case lookup t p of None \<Rightarrow> None | Some n \<Rightarrow> lookup n q)"
  by (induction t p rule: lookup.induct) (auto split: option.splits)

lemma map_of_view: "map_of (map (\<lambda>(n, c). (n, f c)) es) x = map_option f (map_of es x)"
  by (induction es) auto

lemma lookup_view: "lookup (view fd fa fm t) p = map_option (view fd fa fm) (lookup t p)"
  by (induction t p rule: lookup.induct) (auto simp: map_of_view split: option.splits)

lemma is_Dir_view [simp]: "is_Dir (view fd fa fm t) = is_Dir t"
  by (cases t) auto

lemma fst_view_entries [simp]: "map fst (map (\<lambda>(n, c). (n, f c)) es) = map fst es"
  by (induction es) auto

declare visit_order.simps [simp del]

lemma stat_the_stat: "lookup root p \<noteq> None \<Longrightarrow> stat root p = Inr (the_stat root p)"
  by (auto simp: stat_def the_stat_def sub_def)

lemma stat_all_the_stat:
  "\<forall>p \<in> set ps. lookup root p \<noteq> None \<Longrightarrow> stat_all root ps = Inr (map (the_stat root) ps)"
  by (induction ps) (auto simp: stat_the_stat)

lemma lookup_child:
  "lookup root p = Some (Dir es a m) \<Longrightarrow> lookup root (p @ [e]) = map_of es e"
  by (simp add: lookup_append split: option.splits)

lemma map_of_names: "e \<in> set (map fst es) \<Longrightarrow> map_of es e \<noteq> None"
  by (metis domIff dom_map_of_conv_image_fst list.set_map)

lemma lookup_shape: "lookup (shape t) p = map_option shape (lookup t p)"
  by (simp add: shape_def lookup_view)

lemma lookup_shape_Some: "lookup (shape t) p = Some n \<Longrightarrow> \<exists>n1. lookup t p = Some n1 \<and> shape n1 = n"
  by (auto simp: lookup_shape)

lemma lookup_shape_None: "lookup (shape t) p = None \<longleftrightarrow> lookup t p = None"
  by (auto simp: lookup_shape)

lemma shape_Dir: "shape n1 = Dir es a m \<Longrightarrow> \<exists>es1 a1 m1. n1 = Dir es1 a1 m1 \<and> map fst es1 = map fst es"
  by (cases n1) (auto simp: shape_def)

lemma shape_File: "shape n1 = File d a m \<Longrightarrow> \<exists>d1 a1 m1. n1 = File d1 a1 m1"
  by (cases n1) (auto simp: shape_def)

lemma visits_snoc: "visits S (front @ [(p, st)]) = visit_order p (sub S p) @ visits S front"
  by (simp add: visits_def)

lemma visits_append: "visits S (front @ new) = visits S new @ visits S front"
  by (simp add: visits_def)

lemma walk_general:
  assumes inv_shape: "\<And>v. Inv v \<Longrightarrow> shape (fsof v) = S"
    and cb_ok: "\<And>p st v. Inv v \<Longrightarrow> lookup S p \<noteq> None \<Longrightarrow> Q p st \<Longrightarrow> \<exists>v'. cb p st v = Inr v' \<and> Inv v'"
    and stat_Q: "\<And>p st v. Inv v \<Longrightarrow> stat (fsof v) p = Inr st \<Longrightarrow> Q p st"
  shows "Inv w \<Longrightarrow> \<forall>i \<in> set todo. todo_ok Q S i \<Longrightarrow> length (visits S todo) < fuel
    \<Longrightarrow> \<exists>w'. fsWalk_loop fuel fsof cb todo w = Some (Inr (), w') \<and> Inv w' \<and> steps Q cb (visits S todo) w w'"
proof (induction fuel arbitrary: todo w)
  case 0
  then show ?case by simp
next
  case (Suc k)
  show ?case
  proof (cases "todo = []")
    case True
    then show ?thesis using Suc.prems(1) by (auto simp: visits_def intro: steps.intros)
  next
    case False
    then obtain front p st where todo: "todo = front @ [(p, st)]"
      by (metis rev_exhaust surj_pair)
    have ok: "todo_ok Q S (p, st)" and okf: "\<forall>i \<in> set front. todo_ok Q S i"
      using Suc.prems(2) todo by auto
    from ok have ex: "lookup S p \<noteq> None" and dir: "isDirectory st = is_Dir (sub S p)" and q: "Q p st"
      by (auto simp: todo_ok_def)
    from cb_ok [OF Suc.prems(1) ex q] obtain w1 where cb: "cb p st w = Inr w1" and inv1: "Inv w1"
      by blast
    have sh1: "shape (fsof w1) = S" by (rule inv_shape [OF inv1])
    from ex obtain n where n: "lookup S p = Some n" by auto
    then obtain n1 where n1: "lookup (fsof w1) p = Some n1" and nn1: "shape n1 = n"
      using lookup_shape_Some [of "fsof w1" p n] sh1 by auto
    have subn: "sub S p = n" using n by (simp add: sub_def)
    have "\<exists>new. fsWalk_loop (Suc k) fsof cb todo w = fsWalk_loop k fsof cb (front @ new) w1
        \<and> (\<forall>i \<in> set new. todo_ok Q S i)
        \<and> visits S new = concat (map (\<lambda>(e, c). visit_order (p @ [e]) c) (kids n))"
    proof (cases n)
      case (File d a m)
      then have "\<not> isDirectory st" using dir subn by simp
      then have "fsWalk_loop (Suc k) fsof cb todo w = fsWalk_loop k fsof cb (front @ []) w1"
        using todo cb by simp
      moreover have "visits S [] = concat (map (\<lambda>(e, c). visit_order (p @ [e]) c) (kids n))"
        using File by (simp add: visits_def kids_def)
      ultimately show ?thesis by (intro exI [of _ "[]"]) simp
    next
      case (Dir es a m)
      then have isd: "isDirectory st" using dir subn by simp
      from shape_Dir [of n1 es a m] nn1 Dir obtain es1 a1 m1
        where n1D: "n1 = Dir es1 a1 m1" and names: "map fst es1 = map fst es" by auto
      have rd: "readdir (fsof w1) p = Inr (map fst es)"
        using n1 n1D names by (simp add: readdir_def)
      define paths where "paths = map (\<lambda>e. p @ [e]) (rev (sort (map fst es)))"
      have ex1: "\<forall>q \<in> set paths. lookup (fsof w1) q \<noteq> None"
        using n1 n1D names map_of_names [of _ es1]
        by (auto simp: paths_def lookup_child [OF n1 [unfolded n1D]])
      define new where "new = zip paths (map (the_stat (fsof w1)) paths)"
      have sa: "stat_all (fsof w1) paths = Inr (map (the_stat (fsof w1)) paths)"
        by (rule stat_all_the_stat [OF ex1])
      have step: "fsWalk_loop (Suc k) fsof cb todo w = fsWalk_loop k fsof cb (front @ new) w1"
        using todo cb isd rd sa by (simp add: paths_def new_def Let_def)
      have new_map: "new = map (\<lambda>q. (q, the_stat (fsof w1) q)) paths"
        by (simp add: new_def zip_map2 zip_same_conv_map)
      have okn: "\<forall>i \<in> set new. todo_ok Q S i"
      proof
        fix i assume "i \<in> set new"
        then obtain q where qp: "q \<in> set paths" and i: "i = (q, the_stat (fsof w1) q)"
          by (auto simp: new_map)
        from ex1 qp have l1: "lookup (fsof w1) q \<noteq> None" by auto
        then have lS: "lookup S q \<noteq> None" using lookup_shape_None [of "fsof w1" q] sh1 by auto
        have "is_Dir (sub S q) = is_Dir (sub (fsof w1) q)"
          using l1 by (auto simp: sub_def shape_def lookup_view sh1 [symmetric])
        moreover have "Q q (the_stat (fsof w1) q)"
          using stat_Q [OF inv1 stat_the_stat [OF l1]] .
        ultimately show "todo_ok Q S i" using lS i by (simp add: todo_ok_def the_stat_def)
      qed
      have "visits S new = concat (map (\<lambda>e. visit_order (p @ [e]) (sub S (p @ [e]))) (sort (map fst es)))"
        by (simp add: visits_def new_map paths_def rev_map comp_def)
      also have "\<dots> = concat (map (\<lambda>(e, c). visit_order (p @ [e]) c) (kids n))"
        using Dir lookup_child [OF n [unfolded Dir]]
        by (simp add: kids_def comp_def sub_def)
      finally show ?thesis using step okn by blast
    qed
    then obtain new where step: "fsWalk_loop (Suc k) fsof cb todo w = fsWalk_loop k fsof cb (front @ new) w1"
      and okn: "\<forall>i \<in> set new. todo_ok Q S i"
      and vis: "visits S new = concat (map (\<lambda>(e, c). visit_order (p @ [e]) c) (kids n))"
      by blast
    have vo: "visit_order p n = p # visits S new"
      using vis by (subst visit_order.simps) simp
    have "visits S todo = visit_order p n @ visits S front"
      by (simp add: todo visits_snoc subn)
    then have vt: "visits S todo = p # visits S (front @ new)"
      by (simp add: vo visits_append [of S front new])
    then have len: "length (visits S (front @ new)) < k" using Suc.prems(3) by simp
    have "\<forall>i \<in> set (front @ new). todo_ok Q S i" using okf okn by auto
    from Suc.IH [OF inv1 this len] obtain w' where
      "fsWalk_loop k fsof cb (front @ new) w1 = Some (Inr (), w')" "Inv w'"
      "steps Q cb (visits S (front @ new)) w1 w'" by blast
    then show ?thesis using step vt q cb by (auto intro: steps.intros)
  qed
qed

section \<open>On trees with no name twice, the order is the lexicographic preorder\<close>

lemma map_insort_key: "map f (insort_key f x xs) = insort (f x) (map f xs)"
  by (induction xs) auto

lemma map_sort_key: "map f (sort_key f xs) = sort (map f xs)"
  by (induction xs) (auto simp: map_insort_key)

lemma kids_wf:
  assumes "distinct (map fst es)"
  shows "kids (Dir es a m) = sort_key fst es"
proof -
  have "map (\<lambda>e. (e, the (map_of es e))) (sort (map fst es))
      = map (\<lambda>x. (fst x, the (map_of es (fst x)))) (sort_key fst es)"
    by (simp add: map_sort_key [symmetric] comp_def)
  also have "\<dots> = map (\<lambda>x. x) (sort_key fst es)"
  proof (rule map_cong [OF refl])
    fix x assume "x \<in> set (sort_key fst es)"
    then have "(fst x, snd x) \<in> set es" by simp
    from map_of_is_SomeI [OF assms this] show "(fst x, the (map_of es (fst x))) = x" by simp
  qed
  finally show ?thesis by (simp add: kids_def)
qed

lemma wf_tree_child: "wf_tree (Dir es a m) \<Longrightarrow> (n, c) \<in> set es \<Longrightarrow> wf_tree c"
  by (auto simp: list_all_iff)

lemma visit_order_lex: "wf_tree t \<Longrightarrow> visit_order p t = lex_preorder p t"
proof (induction t arbitrary: p)
  case (File d a m)
  show ?case by (subst visit_order.simps) (simp add: kids_def)
next
  case (Dir es a m)
  have d: "distinct (map fst es)" using Dir.prems by simp
  have "map (\<lambda>(e, c). visit_order (p @ [e]) c) (sort_key fst es)
      = map (\<lambda>(e, c). lex_preorder (p @ [e]) c) (sort_key fst es)"
  proof (rule map_cong [OF refl])
    fix x assume "x \<in> set (sort_key fst es)"
    then have x: "x \<in> set es" by simp
    obtain e c where xe: "x = (e, c)" by (cases x)
    have "wf_tree c" using wf_tree_child [OF Dir.prems] x xe by auto
    moreover have "c \<in> Basic_BNFs.snds x" using xe by simp
    ultimately have "visit_order (p @ [e]) c = lex_preorder (p @ [e]) c"
      using Dir.IH [OF x] by blast
    then show "(case x of (e, c) \<Rightarrow> visit_order (p @ [e]) c) = (case x of (e, c) \<Rightarrow> lex_preorder (p @ [e]) c)"
      using xe by simp
  qed
  then have "concat (map (\<lambda>(e, c). visit_order (p @ [e]) c) (kids (Dir es a m)))
      = concat (map (\<lambda>(e, c). lex_preorder (p @ [e]) c) (sort_key fst es))"
    unfolding kids_wf [OF d] by (rule arg_cong)
  then show ?case by (subst visit_order.simps) simp
qed

text \<open>Every path of the list starts with the path of the root.\<close>

lemma entries_prefix: "q \<in> set (entries p t) \<Longrightarrow> take (length p) q = p"
proof (induction t arbitrary: p q)
  case (File d a m)
  then show ?case by simp
next
  case (Dir es a m)
  show ?case
  proof (cases "q = p")
    case True
    then show ?thesis by simp
  next
    case False
    then obtain n c where nc: "(n, c) \<in> set es" and q: "q \<in> set (entries (p @ [n]) c)"
      using Dir.prems by auto
    have "take (length (p @ [n])) q = p @ [n]"
      using Dir.IH [OF nc _ q] by simp
    then have "take (length p) (take (length (p @ [n])) q) = take (length p) (p @ [n])" by simp
    then show ?thesis by (simp add: min_def)
  qed
qed

lemma entries_longer: "q \<in> set (entries p t) \<Longrightarrow> length p \<le> length q"
  using entries_prefix [of q p t] by (metis length_take min.cobounded1 min_def nat_le_linear take_all)

lemma distinct_entries: "wf_tree t \<Longrightarrow> distinct (entries p t)"
proof (induction t arbitrary: p)
  case (File d a m)
  show ?case by simp
next
  case (Dir es a m)
  have d: "distinct (map fst es)" using Dir.prems by simp
  have sub: "\<And>n c. (n, c) \<in> set es \<Longrightarrow> distinct (entries (p @ [n]) c)"
    using Dir.IH wf_tree_child [OF Dir.prems] by fastforce
  have notp: "\<And>n c. (n, c) \<in> set es \<Longrightarrow> p \<notin> set (entries (p @ [n]) c)"
    using entries_longer by fastforce
  have blocks: "distinct (concat (map (\<lambda>(n, c). entries (p @ [n]) c) es))"
    using d sub
  proof (induction es)
    case Nil
    show ?case by simp
  next
    case (Cons x es)
    obtain n c where x: "x = (n, c)" by (cases x)
    have "set (entries (p @ [n]) c) \<inter> set (concat (map (\<lambda>(n, c). entries (p @ [n]) c) es)) = {}"
    proof (rule ccontr)
      assume "\<not> ?thesis"
      then obtain q n' c' where q1: "q \<in> set (entries (p @ [n]) c)"
        and nc': "(n', c') \<in> set es" and q2: "q \<in> set (entries (p @ [n']) c')"
        by auto
      from entries_prefix [OF q1] entries_prefix [OF q2]
      have "p @ [n] = p @ [n']" by simp
      then have "n = n'" by simp
      then show False using Cons.prems(1) x nc' by force
    qed
    moreover have "distinct (concat (map (\<lambda>(n, c). entries (p @ [n]) c) es))"
      using Cons by auto
    moreover have "distinct (entries (p @ [n]) c)" using Cons.prems(2) x by auto
    ultimately show ?case using x by simp
  qed
  show ?case using blocks notp by auto
qed

lemma set_lex_preorder: "set (lex_preorder p t) = set (entries p t)"
proof (induction t arbitrary: p)
  case (File d a m)
  show ?case by simp
next
  case (Dir es a m)
  have "(\<Union>x\<in>set es. set (case x of (n, c) \<Rightarrow> lex_preorder (p @ [n]) c))
      = (\<Union>x\<in>set es. set (case x of (n, c) \<Rightarrow> entries (p @ [n]) c))"
    by (rule SUP_cong [OF refl]) (use Dir.IH in fastforce)
  then show ?case by simp
qed

lemma sum_list_insort_key: "sum_list (map h (insort_key f x xs)) = h x + sum_list (map (h :: 'a \<Rightarrow> nat) xs)"
  by (induction xs) auto

lemma sum_list_sort_key: "sum_list (map h (sort_key f xs)) = sum_list (map (h :: 'a \<Rightarrow> nat) xs)"
  by (induction xs) (auto simp: sum_list_insort_key)

lemma length_lex_preorder: "length (lex_preorder p t) = length (entries p t)"
proof (induction t arbitrary: p)
  case (File d a m)
  show ?case by simp
next
  case (Dir es a m)
  have "sum_list (map (\<lambda>x. length (case x of (n, c) \<Rightarrow> lex_preorder (p @ [n]) c)) es)
      = sum_list (map (\<lambda>x. length (case x of (n, c) \<Rightarrow> entries (p @ [n]) c)) es)"
    by (rule arg_cong [where f = sum_list], rule map_cong [OF refl]) (use Dir.IH in fastforce)
  then show ?case
    by (simp add: length_concat comp_def sum_list_sort_key)
qed

lemma distinct_same_set: "distinct xs \<Longrightarrow> set ys = set xs \<Longrightarrow> length ys = length xs \<Longrightarrow> distinct ys"
  by (metis card_distinct distinct_card)

lemma distinct_lex_preorder: "wf_tree t \<Longrightarrow> distinct (lex_preorder p t)"
  using distinct_same_set [OF distinct_entries set_lex_preorder length_lex_preorder] .

lemma kids_view: "kids (view fd fa fm t) = map (\<lambda>(e, c). (e, view fd fa fm c)) (kids t)"
proof (cases t)
  case (File d a m)
  then show ?thesis by (simp add: kids_def)
next
  case (Dir es a m)
  have pw: "map (\<lambda>e. (e, the (map_option (view fd fa fm) (map_of es e)))) (sort (map fst es))
      = map (\<lambda>e. (e, view fd fa fm (the (map_of es e)))) (sort (map fst es))"
  proof (rule map_cong [OF refl])
    fix e assume "e \<in> set (sort (map fst es))"
    then have "map_of es e \<noteq> None" using map_of_names [of e es] by simp
    then show "(e, the (map_option (view fd fa fm) (map_of es e))) = (e, view fd fa fm (the (map_of es e)))"
      by auto
  qed
  have names: "map fst (map (\<lambda>(n, c). (n, view fd fa fm c)) es) = map fst es"
    by (rule fst_view_entries)
  have "kids (view fd fa fm t)
      = map (\<lambda>e. (e, the (map_of (map (\<lambda>(n, c). (n, view fd fa fm c)) es) e))) (sort (map fst es))"
    unfolding Dir kids_def view.simps fsnode.case names ..
  also have "\<dots> = map (\<lambda>e. (e, the (map_option (view fd fa fm) (map_of es e)))) (sort (map fst es))"
    by (simp only: map_of_view)
  also have "\<dots> = map (\<lambda>e. (e, view fd fa fm (the (map_of es e)))) (sort (map fst es))"
    by (rule pw)
  also have "\<dots> = map (\<lambda>(e, c). (e, view fd fa fm c)) (kids t)"
    using Dir by (simp add: kids_def comp_def)
  finally show ?thesis .
qed

lemma visit_order_view: "visit_order p (view fd fa fm t) = visit_order p t"
proof (induction p t rule: visit_order.induct)
  case (1 p t)
  have "map (\<lambda>(e, c). visit_order (p @ [e]) (view fd fa fm c)) (kids t)
      = map (\<lambda>(e, c). visit_order (p @ [e]) c) (kids t)"
    by (rule map_cong [OF refl]) (use "1.IH" in auto)
  moreover have "map (\<lambda>(e, c). visit_order (p @ [e]) c) (kids (view fd fa fm t))
      = map (\<lambda>(e, c). visit_order (p @ [e]) (view fd fa fm c)) (kids t)"
    by (simp add: kids_view comp_def case_prod_unfold)
  ultimately have eq: "concat (map (\<lambda>(e, c). visit_order (p @ [e]) c) (kids (view fd fa fm t)))
      = concat (map (\<lambda>(e, c). visit_order (p @ [e]) c) (kids t))"
    by (simp only:)
  have "visit_order p (view fd fa fm t)
      = p # concat (map (\<lambda>(e, c). visit_order (p @ [e]) c) (kids (view fd fa fm t)))"
    by (rule visit_order.simps)
  also have "\<dots> = p # concat (map (\<lambda>(e, c). visit_order (p @ [e]) c) (kids t))"
    by (simp only: eq)
  also have "\<dots> = visit_order p t"
    by (rule visit_order.simps [symmetric])
  finally show ?case .
qed

lemma steps_logged: "steps Q (logged cb) ps v v' \<Longrightarrow> snd v' = snd v @ ps"
  by (induction rule: steps.induct) (auto simp: logged_def split: sum.splits)

lemma walk_from_top:
  assumes inv_shape: "\<And>v. Inv v \<Longrightarrow> shape (fsof v) = shape (fsof w)"
    and cb_ok: "\<And>p st v. Inv v \<Longrightarrow> lookup (fsof v) p \<noteq> None \<Longrightarrow> Q p st \<Longrightarrow> \<exists>v'. cb p st v = Inr v' \<and> Inv v'"
    and stat_Q: "\<And>p st v. Inv v \<Longrightarrow> stat (fsof v) p = Inr st \<Longrightarrow> Q p st"
    and inv: "Inv w" and top: "lookup (fsof w) topDir = Some t"
    and fuel: "length (visit_order topDir t) < fuel"
  shows "\<exists>w'. fsWalk fuel fsof topDir cb w = Some (Inr (), w') \<and> Inv w'
           \<and> steps Q cb (visit_order topDir t) w w'"
proof -
  define S where "S = shape (fsof w)"
  define st where "st = the_stat (fsof w) topDir"
  have st: "stat (fsof w) topDir = Inr st"
    using top by (simp add: st_def stat_the_stat)
  have subS: "sub S topDir = shape t"
    using top by (simp add: S_def sub_def lookup_shape)
  have lS: "lookup S topDir = Some (shape t)"
    using top by (simp add: S_def lookup_shape)
  have ok: "\<forall>i \<in> set [(topDir, st)]. todo_ok Q S i"
    using stat_Q [OF inv st] lS
    by (simp add: todo_ok_def sub_def st_def the_stat_def top shape_def)
  have vis: "visits S [(topDir, st)] = visit_order topDir t"
    by (simp add: visits_def subS shape_def visit_order_view)
  have cb': "\<And>p st v. Inv v \<Longrightarrow> lookup S p \<noteq> None \<Longrightarrow> Q p st \<Longrightarrow> \<exists>v'. cb p st v = Inr v' \<and> Inv v'"
  proof -
    fix p st v assume i: "Inv v" and l: "lookup S p \<noteq> None" and q: "Q p st"
    have "lookup (shape (fsof v)) p \<noteq> None"
      using l inv_shape [OF i] by (simp add: S_def)
    then have "lookup (fsof v) p \<noteq> None"
      by (simp add: lookup_shape)
    then show "\<exists>v'. cb p st v = Inr v' \<and> Inv v'" using cb_ok i q by blast
  qed
  from walk_general [of Inv fsof S Q cb w "[(topDir, st)]" fuel, OF _ cb' stat_Q inv ok]
  show ?thesis using inv_shape fuel vis st by (auto simp: S_def fsWalk_def)
qed

section \<open>What resetting the times changes\<close>

lemma map_of_update_view:
  "map (\<lambda>(n, c). (n, f c)) (AList.update x c' es) = AList.update x (f c') (map (\<lambda>(n, c). (n, f c)) es)"
  by (induction es) auto

lemma update_same_view:
  "map_of es x = Some c \<Longrightarrow> f c' = f c \<Longrightarrow>
   map (\<lambda>(n, c). (n, f c)) (AList.update x c' es) = map (\<lambda>(n, c). (n, f c)) es"
  by (induction es) (auto split: if_splits)

lemma view_view: "view fd fa fm (view fd' fa' fm' t) = view (fd \<circ> fd') (fa \<circ> fa') (fm \<circ> fm') t"
  by (induction t) (auto simp: case_prod_unfold)

lemma shape_content_view: "shape t = shape (content_view t)"
  by (simp add: shape_def content_view_def view_view comp_def)

lemma utimes_ok: "lookup f p \<noteq> None \<Longrightarrow> \<exists>f'. utimes f p a m = Inr f'"
  by (induction f p a m rule: utimes.induct) (auto split: option.splits)

lemma utimes_view:
  "utimes f p a m = Inr f' \<Longrightarrow> view fd (\<lambda>x. 0) (\<lambda>x. 0) f' = view fd (\<lambda>x. 0) (\<lambda>x. 0) f"
proof (induction f p a m arbitrary: f' rule: utimes.induct)
  case (4 es a0 m0 x xs a m)
  then obtain c c' where c: "map_of es x = Some c" and u: "utimes c xs a m = Inr c'"
    and f': "f' = Dir (AList.update x c' es) a0 m0"
    by (auto split: option.splits sum.splits)
  have "view fd (\<lambda>x. 0) (\<lambda>x. 0) c' = view fd (\<lambda>x. 0) (\<lambda>x. 0) c"
    using "4.IH" [OF c u] .
  then show ?case using update_same_view [OF c, of "view fd (\<lambda>x. 0) (\<lambda>x. 0)" c'] f' by simp
qed auto

lemma utimes_mtime:
  "utimes f p a m = Inr f' \<Longrightarrow>
   map_option mtime (lookup f' q) = (if q = p then Some m else map_option mtime (lookup f q))"
proof (induction f p a m arbitrary: f' q rule: utimes.induct)
  case (1 d a0 m0 a m)
  then show ?case by (cases q) auto
next
  case (2 es a0 m0 a m)
  then show ?case by (cases q) auto
next
  case (3 d a0 m0 x xs a m)
  then show ?case by simp
next
  case (4 es a0 m0 x xs a m)
  then obtain c c' where c: "map_of es x = Some c" and u: "utimes c xs a m = Inr c'"
    and f': "f' = Dir (AList.update x c' es) a0 m0"
    by (auto split: option.splits sum.splits)
  show ?case
  proof (cases q)
    case Nil
    then show ?thesis using f' by simp
  next
    case (Cons y ys)
    show ?thesis
    proof (cases "y = x")
      case True
      then show ?thesis using Cons f' c "4.IH" [OF c u, of ys] by (simp add: update_conv')
    next
      case False
      then show ?thesis using Cons f' by (simp add: update_conv')
    qed
  qed
qed

lemma steps_set_times:
  "steps Q set_times_cb ps w w' \<Longrightarrow>
     content_view (files w') = content_view (files w)
     \<and> w' = w\<lparr>files := files w'\<rparr>
     \<and> (\<forall>q. map_option mtime (lookup (files w') q)
            = (if q \<in> set ps then Some 0 else map_option mtime (lookup (files w) q)))"
proof (induction rule: steps.induct)
  case (steps_Nil w)
  show ?case by simp
next
  case (steps_Cons p st w w1 ps w2)
  from steps_Cons.hyps(2) obtain f where u: "utimes (files w) p (st_atime st) 0 = Inr f"
    and w1: "w1 = w\<lparr>files := f\<rparr>"
    by (auto simp: set_times_cb_def split: sum.splits)
  have cv: "content_view (files w1) = content_view (files w)"
    using utimes_view [OF u] w1 by (simp add: content_view_def)
  have mt: "\<And>q. map_option mtime (lookup (files w1) q) = (if q = p then Some 0 else map_option mtime (lookup (files w) q))"
    using utimes_mtime [OF u] w1 by simp
  from steps_Cons.IH have a: "content_view (files w2) = content_view (files w1)"
    and b: "w2 = w1\<lparr>files := files w2\<rparr>"
    and c: "\<And>q. map_option mtime (lookup (files w2) q)
            = (if q \<in> set ps then Some 0 else map_option mtime (lookup (files w1) q))"
    by auto
  have "w2 = w\<lparr>files := files w2\<rparr>" using b w1 by (metis world.surjective world.update_convs(1))
  then show ?case using a cv c mt by auto
qed

lemma lookup_in_visit_order: "lookup t q = Some n \<Longrightarrow> p @ q \<in> set (visit_order p t)"
proof (induction q arbitrary: p t)
  case Nil
  show ?case by (subst visit_order.simps) simp
next
  case (Cons x xs)
  then obtain es a m c where t: "t = Dir es a m" and c: "map_of es x = Some c"
    and l: "lookup c xs = Some n"
    by (cases t) (auto split: option.splits)
  have "x \<in> set (map fst es)" using map_of_SomeD [OF c] by force
  then have k: "(x, c) \<in> set (kids t)" using t c by (auto simp: kids_def)
  have "(p @ [x]) @ xs \<in> set (visit_order (p @ [x]) c)" by (rule Cons.IH [OF l])
  then show ?case using k by (subst visit_order.simps) force
qed

lemma set_times_walk_result:
  "lookup (files w) stageDir = Some t \<Longrightarrow> length (visit_order stageDir t) < fuel \<Longrightarrow>
   \<exists>w'. fsWalk fuel files stageDir set_times_cb w = Some (Inr (), w')
      \<and> (\<forall>q n. lookup (files w') (stageDir @ q) = Some n \<longrightarrow> mtime n = 0)
      \<and> content_view (files w') = content_view (files w)
      \<and> w' = w\<lparr>files := files w'\<rparr>"
proof -
  assume top: "lookup (files w) stageDir = Some t" and fuel: "length (visit_order stageDir t) < fuel"
  define Inv where "Inv = (\<lambda>v :: world. shape (files v) = shape (files w))"
  have "\<exists>w'. fsWalk fuel files stageDir set_times_cb w = Some (Inr (), w') \<and> Inv w'
           \<and> steps (\<lambda>p st. True) set_times_cb (visit_order stageDir t) w w'"
  proof (rule walk_from_top [where Inv = Inv])
    show "\<And>v. Inv v \<Longrightarrow> shape (files v) = shape (files w)" by (simp add: Inv_def)
    show "Inv w" by (simp add: Inv_def)
    show "lookup (files w) stageDir = Some t" by (rule top)
    show "length (visit_order stageDir t) < fuel" by (rule fuel)
    show "\<And>p (st :: stats) v. Inv v \<Longrightarrow> lookup (files v) p \<noteq> None \<Longrightarrow> True
            \<Longrightarrow> \<exists>v'. set_times_cb p st v = Inr v' \<and> Inv v'"
    proof -
      fix p and st :: stats and v :: world
      assume i: "Inv v" and l: "lookup (files v) p \<noteq> None"
      from utimes_ok [OF l] obtain f where u: "utimes (files v) p (st_atime st) 0 = Inr f" by blast
      have "shape f = shape (files v)" using utimes_view [OF u] by (simp add: shape_def)
      then show "\<exists>v'. set_times_cb p st v = Inr v' \<and> Inv v'"
        using i u by (simp add: set_times_cb_def Inv_def)
    qed
  qed simp
  then obtain w' where run: "fsWalk fuel files stageDir set_times_cb w = Some (Inr (), w')"
    and st: "steps (\<lambda>p st. True) set_times_cb (visit_order stageDir t) w w'" by blast
  from steps_set_times [OF st] have cv: "content_view (files w') = content_view (files w)"
    and fr: "w' = w\<lparr>files := files w'\<rparr>"
    and mt: "\<And>q. map_option mtime (lookup (files w') q)
            = (if q \<in> set (visit_order stageDir t) then Some 0 else map_option mtime (lookup (files w) q))"
    by auto
  have "\<forall>q n. lookup (files w') (stageDir @ q) = Some n \<longrightarrow> mtime n = 0"
  proof (intro allI impI)
    fix q n assume l': "lookup (files w') (stageDir @ q) = Some n"
    have "lookup (shape (files w')) (stageDir @ q) \<noteq> None" using l' by (simp add: lookup_shape)
    moreover have "shape (files w') = shape (files w)"
      using cv by (metis shape_content_view)
    ultimately have "lookup (files w) (stageDir @ q) \<noteq> None" by (simp add: lookup_shape)
    then obtain n0 where "lookup t q = Some n0" using top by (auto simp: lookup_append)
    then have "stageDir @ q \<in> set (visit_order stageDir t)" by (rule lookup_in_visit_order)
    then show "mtime n = 0" using mt [of "stageDir @ q"] l' by simp
  qed
  then show ?thesis using run cv fr by blast
qed


lemma set_times_cb_ok:
  "lookup (files v) p \<noteq> None \<Longrightarrow>
   \<exists>v'. set_times_cb p st v = Inr v' \<and> shape (files v') = shape (files v)"
proof -
  assume l: "lookup (files v) p \<noteq> None"
  from utimes_ok [OF l] obtain f where u: "utimes (files v) p (st_atime st) 0 = Inr f" by blast
  have "shape f = shape (files v)" using utimes_view [OF u] by (simp add: shape_def)
  then show ?thesis using u by (simp add: set_times_cb_def)
qed

lemma example_staged_found:
  "lookup (files example_staged_world) [''tmp'', ''stage''] = Some example_staged"
  by (simp add: example_staged_world_def example_world_def)

lemma example_staged_order:
  "lex_preorder [''tmp'', ''stage''] example_staged =
     [[''tmp'', ''stage''], [''tmp'', ''stage'', ''lib''], [''tmp'', ''stage'', ''lib'', ''bar.js''],
      [''tmp'', ''stage'', ''node_modules''], [''tmp'', ''stage'', ''node_modules'', ''dep''],
      [''tmp'', ''stage'', ''node_modules'', ''dep'', ''package.json'']]"
  by code_simp

text \<open>In the lexicographic preorder no path follows a path below it.\<close>

lemma sorted_wrt_concat_map:
  "distinct (map fst xs) \<Longrightarrow> (\<forall>x \<in> set xs. sorted_wrt P (f x)) \<Longrightarrow>
   (\<forall>x \<in> set xs. \<forall>y \<in> set xs. fst x \<noteq> fst y \<longrightarrow> (\<forall>a \<in> set (f x). \<forall>b \<in> set (f y). P a b)) \<Longrightarrow>
   sorted_wrt P (concat (map f xs))"
proof (induction xs)
  case Nil
  show ?case by simp
next
  case (Cons x xs)
  have "\<forall>a \<in> set (f x). \<forall>b \<in> set (concat (map f xs)). P a b"
  proof (intro ballI)
    fix a b assume a: "a \<in> set (f x)" and b: "b \<in> set (concat (map f xs))"
    from b obtain y where y: "y \<in> set xs" and bm: "b \<in> set (f y)" by auto
    have "fst x \<noteq> fst y" using Cons.prems(1) y by auto
    then show "P a b" using Cons.prems(3) a bm y by simp
  qed
  moreover have "sorted_wrt P (concat (map f xs))"
    using Cons by simp
  ultimately show ?case using Cons.prems(2) by (simp add: sorted_wrt_append)
qed

lemma lex_preorder_parents_first:
  "wf_tree t \<Longrightarrow> sorted_wrt (\<lambda>a b. \<not> (\<exists>r. r \<noteq> [] \<and> a = b @ r)) (lex_preorder p t)"
proof (induction t arbitrary: p)
  case (File d a m)
  show ?case by simp
next
  case (Dir es a m)
  let ?P = "\<lambda>a b :: path. \<not> (\<exists>r. r \<noteq> [] \<and> a = b @ r)"
  let ?f = "\<lambda>(n, c). lex_preorder (p @ [n]) c"
  have pre: "take (Suc (length p)) q = p @ [n]" if "q \<in> set (lex_preorder (p @ [n]) c)" for q n c
    using entries_prefix [of q "p @ [n]" c] that by (simp add: set_lex_preorder)
  have d: "distinct (map fst (sort_key fst es))"
    using Dir.prems by (simp add: map_sort_key)
  have s: "\<forall>x \<in> set (sort_key fst es). sorted_wrt ?P (?f x)"
  proof
    fix x assume "x \<in> set (sort_key fst es)"
    then have x: "x \<in> set es" by simp
    obtain n c where nc: "x = (n, c)" by (cases x)
    have "wf_tree c" using wf_tree_child [OF Dir.prems] x nc by blast
    from Dir.IH [of x c, OF x _ this] nc show "sorted_wrt ?P (?f x)" by simp
  qed
  have cross: "\<forall>x \<in> set (sort_key fst es). \<forall>y \<in> set (sort_key fst es). fst x \<noteq> fst y \<longrightarrow>
      (\<forall>a \<in> set (?f x). \<forall>b \<in> set (?f y). ?P a b)"
  proof (intro ballI impI)
    fix x y a b
    assume ne: "fst x \<noteq> fst y" and a: "a \<in> set (?f x)" and b: "b \<in> set (?f y)"
    obtain n c n' c' where x: "x = (n, c)" and y: "y = (n', c')" by (cases x, cases y)
    from a x have pa: "take (Suc (length p)) a = p @ [n]" using pre by simp
    from b y have pb: "take (Suc (length p)) b = p @ [n']" using pre by simp
    show "?P a b"
    proof
      assume "\<exists>r. r \<noteq> [] \<and> a = b @ r"
      then obtain r where "a = b @ r" by blast
      moreover have "Suc (length p) \<le> length b" using pb
        by (metis length_append_singleton length_take min.cobounded1 min_def nat_le_linear take_all)
      ultimately have "take (Suc (length p)) a = take (Suc (length p)) b" by simp
      then show False using pa pb ne x y by simp
    qed
  qed
  have top: "\<forall>b \<in> set (concat (map ?f (sort_key fst es))). ?P p b"
  proof
    fix b assume "b \<in> set (concat (map ?f (sort_key fst es)))"
    then obtain n c where "b \<in> set (lex_preorder (p @ [n]) c)" by auto
    from pre [OF this] have "Suc (length p) \<le> length b"
      by (metis length_append_singleton length_take min.cobounded1 min_def nat_le_linear take_all)
    then show "?P p b" by auto
  qed
  show ?case using top sorted_wrt_concat_map [OF d s cross] by simp
qed

section \<open>\<^verbatim>\<open>fsWalk\<close> visits a tree in lexicographic preorder\<close>

text \<open>
  C5. Let \<open>topDir\<close> be the root of a tree \<open>t\<close> in which no directory lists a name twice,
  and \<open>cb\<close> a callback that, on a path that exists, neither rejects nor changes the
  names and kinds of the entries. Then \<^verbatim>\<open>fsWalk(topDir, cb)\<close>, given fuel for one
  iteration per entry and the final test, resolves, and the paths it has called \<open>cb\<close>
  with are, in this order, the lexicographic preorder of \<open>t\<close>: a directory first, then
  the subtrees of its entries by ascending name. That list has no path twice, its
  paths are the entries of the tree, and no path in it comes after a path that extends
  it: a directory is visited before everything below it.
\<close>

theorem fsWalk_lexicographic_preorder:
  "lookup (fsof w) topDir = Some t \<Longrightarrow> wf_tree t \<Longrightarrow> length (entries topDir t) < fuel \<Longrightarrow>
   \<forall>p st v. lookup (fsof v) p \<noteq> None
      \<longrightarrow> (\<exists>v'. cb p st v = Inr v' \<and> shape (fsof v') = shape (fsof v)) \<Longrightarrow>
   (\<exists>w'. fsWalk fuel (\<lambda>v. fsof (fst v)) topDir (logged cb) (w, [])
            = Some (Inr (), (w', lex_preorder topDir t)))
   \<and> distinct (lex_preorder topDir t)
   \<and> set (lex_preorder topDir t) = set (entries topDir t)
   \<and> sorted_wrt (\<lambda>a b. \<not> (\<exists>r. r \<noteq> [] \<and> a = b @ r)) (lex_preorder topDir t)"
proof (intro conjI)
  assume top: "lookup (fsof w) topDir = Some t" and wf: "wf_tree t"
    and fuel: "length (entries topDir t) < fuel"
    and cb: "\<forall>p st v. lookup (fsof v) p \<noteq> None
      \<longrightarrow> (\<exists>v'. cb p st v = Inr v' \<and> shape (fsof v') = shape (fsof v))"
  define Inv where "Inv = (\<lambda>v :: 'a \<times> path list. shape (fsof (fst v)) = shape (fsof w))"
  have vo: "visit_order topDir t = lex_preorder topDir t" by (rule visit_order_lex [OF wf])
  have "\<exists>v'. fsWalk fuel (\<lambda>v. fsof (fst v)) topDir (logged cb) (w, []) = Some (Inr (), v') \<and> Inv v'
           \<and> steps (\<lambda>p st. True) (logged cb) (visit_order topDir t) (w, []) v'"
  proof (rule walk_from_top [where Inv = Inv])
    show "\<And>v. Inv v \<Longrightarrow> shape (fsof (fst v)) = shape (fsof (fst (w, [])))"
      by (simp add: Inv_def)
    show "Inv (w, [])" by (simp add: Inv_def)
    show "lookup (fsof (fst (w, []))) topDir = Some t" using top by simp
    show "length (visit_order topDir t) < fuel" using fuel by (simp add: vo length_lex_preorder)
    show "\<And>p st v. Inv v \<Longrightarrow> lookup (fsof (fst v)) p \<noteq> None \<Longrightarrow> True
            \<Longrightarrow> \<exists>v'. logged cb p st v = Inr v' \<and> Inv v'"
    proof -
      fix p st and v :: "'a \<times> path list"
      assume i: "Inv v" and l: "lookup (fsof (fst v)) p \<noteq> None"
      from cb l obtain u where "cb p st (fst v) = Inr u" "shape (fsof u) = shape (fsof (fst v))"
        by blast
      then show "\<exists>v'. logged cb p st v = Inr v' \<and> Inv v'"
        using i by (auto simp: logged_def Inv_def)
    qed
  qed simp
  then obtain v' where run: "fsWalk fuel (\<lambda>v. fsof (fst v)) topDir (logged cb) (w, []) = Some (Inr (), v')"
    and st: "steps (\<lambda>p st. True) (logged cb) (visit_order topDir t) (w, []) v'" by blast
  from steps_logged [OF st] have "snd v' = lex_preorder topDir t" by (simp add: vo)
  then have "v' = (fst v', lex_preorder topDir t)" by (cases v') simp
  then show "\<exists>w'. fsWalk fuel (\<lambda>v. fsof (fst v)) topDir (logged cb) (w, [])
            = Some (Inr (), (w', lex_preorder topDir t))"
    using run by metis
next
  assume "wf_tree t"
  then show "distinct (lex_preorder topDir t)"
    by (rule distinct_lex_preorder)
next
  show "set (lex_preorder topDir t) = set (entries topDir t)" by (rule set_lex_preorder)
next
  assume "wf_tree t"
  then show "sorted_wrt (\<lambda>a b. \<not> (\<exists>r. r \<noteq> [] \<and> a = b @ r)) (lex_preorder topDir t)"
    by (rule lex_preorder_parents_first)
qed

theorem fsWalk_lexicographic_preorder_witness:
  "lookup (files example_staged_world) [''tmp'', ''stage''] = Some example_staged
   \<and> wf_tree example_staged
   \<and> length (entries [''tmp'', ''stage''] example_staged) < 10
   \<and> (\<exists>w'. fsWalk 10 (\<lambda>v. files (fst v)) [''tmp'', ''stage''] (logged set_times_cb)
              (example_staged_world, [])
            = Some (Inr (), (w',
                [[''tmp'', ''stage''], [''tmp'', ''stage'', ''lib''],
                 [''tmp'', ''stage'', ''lib'', ''bar.js''],
                 [''tmp'', ''stage'', ''node_modules''],
                 [''tmp'', ''stage'', ''node_modules'', ''dep''],
                 [''tmp'', ''stage'', ''node_modules'', ''dep'', ''package.json'']])))"
proof -
  have h2: "wf_tree example_staged" by (simp add: example_staged_def)
  have h3: "length (entries [''tmp'', ''stage''] example_staged) < 10"
    by (simp add: example_staged_def)
  have h4: "\<forall>p st v. lookup (files v) p \<noteq> None
      \<longrightarrow> (\<exists>v'. set_times_cb p st v = Inr v' \<and> shape (files v') = shape (files v))"
    using set_times_cb_ok by blast
  from fsWalk_lexicographic_preorder [OF example_staged_found h2 h3 h4]
  show ?thesis using example_staged_found h2 h3 by (simp add: example_staged_order)
qed

section \<open>The normalization step\<close>

text \<open>
  C4. The normalization step is \<^verbatim>\<open>fsWalk\<close> over the staging directory with the callback
  of line 125. When the staging directory exists, the step resolves (given fuel for
  the walk), and afterwards every entry a path under the staging root reaches, the
  root included, has modification time 0; the names, kinds and bytes of the whole file
  system are what they were, and nothing else of the state has changed.
\<close>

theorem normalization_resets_mtimes:
  "lookup (files w) stageDir = Some t \<Longrightarrow> length (visit_order stageDir t) < fuel \<Longrightarrow>
   \<exists>w'. fsWalk fuel files stageDir set_times_cb w = Some (Inr (), w')
      \<and> (\<forall>q n. lookup (files w') (stageDir @ q) = Some n \<longrightarrow> mtime n = 0)
      \<and> content_view (files w') = content_view (files w)
      \<and> w' = w\<lparr>files := files w'\<rparr>"
  by (rule set_times_walk_result)

theorem normalization_resets_mtimes_witness:
  "lookup (files example_staged_world) [''tmp'', ''stage''] = Some example_staged
   \<and> length (visit_order [''tmp'', ''stage''] example_staged) < 10
   \<and> (\<exists>w'. fsWalk 10 files [''tmp'', ''stage''] set_times_cb example_staged_world = Some (Inr (), w')
          \<and> map_option mtime (lookup (files w') [''tmp'', ''stage'', ''lib'', ''bar.js'']) = Some 0
          \<and> map_option mtime (lookup (files w') [''tmp'', ''stage'']) = Some 0
          \<and> content_view (files w') = content_view (files example_staged_world))"
proof -
  have "wf_tree example_staged" by (simp add: example_staged_def)
  then have h2: "length (visit_order [''tmp'', ''stage''] example_staged) < 10"
    by (simp add: visit_order_lex example_staged_order)
  from normalization_resets_mtimes [OF example_staged_found h2] obtain w' where
    run: "fsWalk 10 files [''tmp'', ''stage''] set_times_cb example_staged_world = Some (Inr (), w')"
    and z: "\<forall>q n. lookup (files w') ([''tmp'', ''stage''] @ q) = Some n \<longrightarrow> mtime n = 0"
    and cv: "content_view (files w') = content_view (files example_staged_world)"
    by blast
  have "lookup (content_view (files w')) [''tmp'', ''stage'', ''lib'', ''bar.js''] \<noteq> None"
    unfolding cv by (simp add: content_view_def example_staged_world_def example_world_def
      example_staged_def)
  then obtain n where n: "lookup (files w') ([''tmp'', ''stage''] @ [''lib'', ''bar.js'']) = Some n"
    by (auto simp: content_view_def lookup_view)
  have "lookup (content_view (files w')) [''tmp'', ''stage''] \<noteq> None"
    unfolding cv by (simp add: content_view_def example_staged_world_def example_world_def
      example_staged_def)
  then obtain r where r: "lookup (files w') ([''tmp'', ''stage''] @ []) = Some r"
    by (auto simp: content_view_def lookup_view)
  from z n have "mtime n = 0" by blast
  moreover from z r have "mtime r = 0" by blast
  ultimately show ?thesis using run cv n r example_staged_found h2 by simp
qed

section \<open>Template parsing tries YAML for every extension that reaches it\<close>

text \<open>
  C10. \<^verbatim>\<open>path.extname\<close> returns the empty string or a string that starts with a dot, so
  it never returns \<^verbatim>\<open>json\<close>. For the extension \<^verbatim>\<open>cloudformationPackage\<close> passes, and for
  every extension other than \<^verbatim>\<open>json\<close>, \<^verbatim>\<open>parseTemplate\<close> returns what \<^verbatim>\<open>JSON.parse\<close>
  returns when that succeeds, otherwise what \<^verbatim>\<open>yamlParse\<close> returns, and fails (with the
  YAML message) only when both fail. Only the extension \<^verbatim>\<open>json\<close> itself makes a failed
  JSON parse final.
\<close>

theorem parseTemplate_json_then_yaml:
  "extname templatePath \<noteq> ''json''
   \<and> parseTemplateAt jp yp templatePath text =
       (case jp text of
          Inr v \<Rightarrow> Inr v
        | Inl e1 \<Rightarrow> (case yp text of
                      Inr v \<Rightarrow> Inr v
                    | Inl e2 \<Rightarrow> Inl (Error (''Unable to parse YAML template: '' @ e2))))
   \<and> (ext \<noteq> ''json'' \<longrightarrow>
        parseTemplate jp yp text ext =
          (case jp text of
             Inr v \<Rightarrow> Inr v
           | Inl e1 \<Rightarrow> (case yp text of
                         Inr v \<Rightarrow> Inr v
                       | Inl e2 \<Rightarrow> Inl (Error (''Unable to parse YAML template: '' @ e2)))))
   \<and> (jp text = Inl e \<longrightarrow>
        parseTemplate jp yp text ''json'' = Inl (Error (''Unable to parse JSON template: '' @ e)))"
  using extname_not_json [of templatePath]
  by (simp add: parseTemplate_def parseTemplateAt_def split: sum.splits)

theorem parseTemplate_json_then_yaml_witness:
  "extname ''cfn.json'' = ''.json''
   \<and> json_only ''a: 1'' = Inl ''SyntaxError''
   \<and> parseTemplateAt json_only yaml_only ''cfn.json'' ''a: 1'' = Inr 1
   \<and> parseTemplate json_only yaml_only ''a: 1'' ''.json'' = Inr 1
   \<and> parseTemplate json_only yaml_only ''a: 1'' ''json''
       = Inl (Error ''Unable to parse JSON template: SyntaxError'')"
  using parseTemplate_json_then_yaml
    [of "''cfn.json''" json_only yaml_only "''a: 1''" "''.json''" "''SyntaxError''"]
  by (simp add: json_only_def yaml_only_def extname_def ext_of_def last_part_def is_slash_def)

section \<open>Frames of the steps of \<^verbatim>\<open>_makeTmpZipFile\<close>\<close>

lemma fsWalk_loop_invariant:
  assumes step: "\<And>p st v v'. I v \<Longrightarrow> cb p st v = Inr v' \<Longrightarrow> I v'"
  shows "I w \<Longrightarrow> fsWalk_loop fuel fsof cb todo w = Some (r, w') \<Longrightarrow> I w'"
proof (induction fuel arbitrary: todo w)
  case 0
  then show ?case by simp
next
  case (Suc k)
  show ?case
  proof (cases "todo = []")
    case True
    then show ?thesis using Suc.prems by simp
  next
    case False
    obtain p st where l: "last todo = (p, st)" by (cases "last todo")
    show ?thesis
    proof (cases "cb p st w")
      case (Inl e)
      then show ?thesis using Suc.prems False l by simp
    next
      case (Inr w1)
      have i1: "I w1" using step [OF Suc.prems(1) Inr] .
      show ?thesis
      proof (cases "isDirectory st")
        case nd: False
        then have "fsWalk_loop k fsof cb (butlast todo) w1 = Some (r, w')"
          using Suc.prems(2) False l Inr by simp
        then show ?thesis by (rule Suc.IH [OF i1])
      next
        case d: True
        show ?thesis
        proof (cases "readdir (fsof w1) p")
          case (Inl e)
          then have "w' = w1" using Suc.prems(2) False l Inr d by simp
          then show ?thesis using i1 by simp
        next
          case rd: (Inr entries)
          define paths where "paths = map (\<lambda>e. p @ [e]) (rev (sort entries))"
          show ?thesis
          proof (cases "stat_all (fsof w1) paths")
            case (Inl e)
            then have "w' = w1"
              using Suc.prems(2) False l Inr d rd by (simp add: paths_def [symmetric])
            then show ?thesis using i1 by simp
          next
            case sa: (Inr sts)
            then have "fsWalk_loop k fsof cb (butlast todo @ zip paths sts) w1 = Some (r, w')"
              using Suc.prems(2) False l Inr d rd by (simp add: paths_def [symmetric])
            then show ?thesis by (rule Suc.IH [OF i1])
          qed
        qed
      qed
    qed
  qed
qed

lemma fsWalk_invariant:
  assumes step: "\<And>p st v v'. I v \<Longrightarrow> cb p st v = Inr v' \<Longrightarrow> I v'"
    and i: "I w" and run: "fsWalk fuel fsof topDir cb w = Some (r, w')"
  shows "I w'"
proof (cases "stat (fsof w) topDir")
  case (Inl e)
  then have "w' = w" using run by (simp add: fsWalk_def)
  then show ?thesis using i by simp
next
  case (Inr st)
  then have loop: "fsWalk_loop fuel fsof cb [(topDir, st)] w = Some (r, w')"
    using run by (simp add: fsWalk_def)
  show ?thesis
  proof (rule fsWalk_loop_invariant [where I = I and cb = cb])
    show "\<And>p st v v'. I v \<Longrightarrow> cb p st v = Inr v' \<Longrightarrow> I v'" by (rule step)
    show "I w" by (rule i)
    show "fsWalk_loop fuel fsof cb [(topDir, st)] w = Some (r, w')" by (rule loop)
  qed
qed

lemma only_files_refl: "only_files w w"
  by (simp add: only_files_def)

lemma only_files_trans: "only_files w w1 \<Longrightarrow> only_files w1 w2 \<Longrightarrow> only_files w w2"
  by (simp add: only_files_def)

lemma only_files_files: "only_files w (w\<lparr>files := f\<rparr>)"
  by (simp add: only_files_def)

lemma set_times_walk_frame:
  "fsWalk fuel files topDir set_times_cb w = Some (r, w') \<Longrightarrow> only_files w w'"
proof (rule fsWalk_invariant [where I = "only_files w"])
  show "only_files w w" by (rule only_files_refl)
  show "\<And>p st v v'. only_files w v \<Longrightarrow> set_times_cb p st v = Inr v' \<Longrightarrow> only_files w v'"
    by (auto simp: set_times_cb_def only_files_def split: sum.splits)
qed

lemma write_stub_frame: "write_stub p s w = Inr w' \<Longrightarrow> only_files w w'"
  by (auto simp: write_stub_def Let_def only_files_files split: if_splits sum.splits
      intro: only_files_refl)

lemma tmp_file_frame: "tmp_file P pre post w = (r, w') \<Longrightarrow> only_files w w'"
  by (auto simp: tmp_file_def Let_def only_files_def split: sum.splits)

lemma tmp_dir_frame: "tmp_dir P pre w = (r, w') \<Longrightarrow> only_files w w'"
  by (auto simp: tmp_dir_def Let_def only_files_def split: sum.splits)

lemma run_zip_frame: "run_zip P z s w = (r, w') \<Longrightarrow> only_files w w'"
  by (auto simp: run_zip_def Let_def only_files_files
      split: option.splits sum.splits if_splits prod.splits intro: only_files_refl)

lemma writeFile_readFile: "writeFile f p d t = Inr f' \<Longrightarrow> readFile f' p = Inr d"
proof (induction f p d t arbitrary: f' rule: writeFile.induct)
  case (4 es a m x xs data t)
  show ?case
  proof (cases "map_of es x")
    case None
    then show ?thesis using "4.prems"
      by (auto simp: readFile_def map_add_def split: if_splits)
  next
    case (Some c)
    then obtain c' where w: "writeFile c xs data t = Inr c'" and f': "f' = Dir (AList.update x c' es) a m"
      using "4.prems" by (auto split: sum.splits)
    from "4.IH" [OF Some w] have "readFile c' xs = Inr data" .
    then show ?thesis using f' by (simp add: readFile_def update_conv')
  qed
qed (auto simp: readFile_def)

lemma run_zip_archive:
  "run_zip P z s w = (Inr 0, w') \<Longrightarrow> \<exists>d. readFile (files w') z = Inr d"
  by (auto simp: run_zip_def Let_def dest: writeFile_readFile
      split: option.splits sum.splits if_splits prod.splits)

lemma spawn_Inr: "spawn outcome = Inr u \<Longrightarrow> outcome = Inr 0"
  by (auto simp: spawn_def split: sum.splits if_splits)

text \<open>What a run of the body of \<open>try\<close> leaves, by how it ends.\<close>

lemma makeTmpZipFile_try_result:
  assumes run: "makeTmpZipFile_try P fuel p args options s w = Some (r, options', w')"
  shows "only_files ((with_node_path options w)
            \<lparr>collector_calls := collector_calls w @ [collector_argv s args p]\<rparr>) w'
     \<and> (\<forall>z. r = Inr z \<longrightarrow>
           options' = (case cache options of None \<Rightarrow> options
                       | Some c \<Rightarrow> options\<lparr>cache := Some (c(p \<mapsto> z))\<rparr>)
           \<and> (\<exists>d. readFile (files w') z = Inr d))
     \<and> (\<forall>e. r = Inl e \<longrightarrow> options' = options)"
proof -
  define w1 where "w1 = with_node_path options w"
  define argv where "argv = collector_argv s args p"
  define w2 where "w2 = w1\<lparr>collector_calls := collector_calls w1 @ [argv]\<rparr>"
  have w2': "w2 = w1\<lparr>collector_calls := collector_calls w @ [argv]\<rparr>"
    by (simp add: w2_def w1_def with_node_path_def split: option.splits)
  note defs = makeTmpZipFile_try_def Let_def w1_def [symmetric] argv_def [symmetric]
    w2_def [symmetric]
  have fin: "only_files ((with_node_path options w)
            \<lparr>collector_calls := collector_calls w @ [collector_argv s args p]\<rparr>) v"
    if "only_files w2 v" for v
    using that by (simp add: w2' w1_def argv_def)
  show ?thesis
  proof (cases "collectJsDeps P argv w1")
    case (Inl e)
    then have "r = Inl e" "options' = options" "w' = w2" using run by (simp_all add: defs)
    then show ?thesis using fin [OF only_files_refl] by simp
  next
    case f: (Inr f)
    have of2: "only_files w2 (w2\<lparr>files := f\<rparr>)" by (rule only_files_files)
    show ?thesis
    proof (cases "write_stub p s (w2\<lparr>files := f\<rparr>)")
      case (Inl e)
      then have "r = Inl e" "options' = options" "w' = w2\<lparr>files := f\<rparr>"
        using run f by (simp_all add: defs)
      then show ?thesis using fin [OF of2] by simp
    next
      case w3: (Inr w3)
      have of3: "only_files w2 w3"
        using only_files_trans [OF of2 write_stub_frame [OF w3]] .
      obtain rw w4 where walk: "fsWalk fuel files s set_times_cb w3 = Some (rw, w4)"
        using run f w3 by (auto simp: defs split: option.splits)
      have of4: "only_files w2 w4"
        using only_files_trans [OF of3 set_times_walk_frame [OF walk]] .
      show ?thesis
      proof (cases rw)
        case (Inl e)
        then have "r = Inl e" "options' = options" "w' = w4"
          using run f w3 walk by (simp_all add: defs)
        then show ?thesis using fin [OF of4] by simp
      next
        case (Inr u)
        obtain rz w5 where tf: "tmp_file P ''aws-lambda-'' ''.zip'' w4 = (rz, w5)"
          by (cases "tmp_file P ''aws-lambda-'' ''.zip'' w4")
        have of5: "only_files w2 w5" using only_files_trans [OF of4 tmp_file_frame [OF tf]] .
        show ?thesis
        proof (cases rz)
          case (Inl e)
          then have "r = Inl e" "options' = options" "w' = w5"
            using run f w3 walk Inr tf by (simp_all add: defs)
          then show ?thesis using fin [OF of5] by simp
        next
          case z: (Inr z)
          define w6 where "w6 = w5\<lparr>files := remove (files w5) z (clock w5)\<rparr>"
          have of6: "only_files w2 w6"
            unfolding w6_def using only_files_trans [OF of5 only_files_files] .
          obtain outcome w7 where rz: "run_zip P z s w6 = (outcome, w7)"
            by (cases "run_zip P z s w6")
          have of7: "only_files w2 w7" using only_files_trans [OF of6 run_zip_frame [OF rz]] .
          show ?thesis
          proof (cases "spawn outcome")
            case (Inl e)
            then have "r = Inl e" "options' = options" "w' = w7"
              using run f w3 walk Inr tf z rz by (simp_all add: defs w6_def [symmetric])
            then show ?thesis using fin [OF of7] by simp
          next
            case sp: (Inr u')
            then have res: "r = Inr z" "w' = w7"
              "options' = (case cache options of None \<Rightarrow> options
                       | Some c \<Rightarrow> options\<lparr>cache := Some (c(p \<mapsto> z))\<rparr>)"
              using run f w3 walk Inr tf z rz by (simp_all add: defs w6_def [symmetric])
            have "\<exists>d. readFile (files w7) z = Inr d"
              using run_zip_archive rz spawn_Inr [OF sp] by blast
            then show ?thesis using res fin [OF of7] by simp
          qed
        qed
      qed
    qed
  qed
qed

lemma collect_args_keeps:
  "collect_args P options = Inr (args, options1) \<Longrightarrow>
   cache options1 = cache options \<and> nodePath options1 = nodePath options"
  by (auto simp: collect_args_def Let_def split: option.splits if_splits sum.splits)

text \<open>The walk that resets the times always ends.\<close>

lemma set_times_walk_total: "\<exists>n. \<forall>k\<ge>n. fsWalk k files s set_times_cb w \<noteq> None"
proof (cases "lookup (files w) s")
  case None
  then show ?thesis by (simp add: fsWalk_def stat_def)
next
  case (Some t)
  have "\<forall>k\<ge>Suc (length (visit_order s t)). fsWalk k files s set_times_cb w \<noteq> None"
  proof (intro allI impI)
    fix k assume "Suc (length (visit_order s t)) \<le> k"
    then have "length (visit_order s t) < k" by simp
    from set_times_walk_result [OF Some this] show "fsWalk k files s set_times_cb w \<noteq> None"
      by auto
  qed
  then show ?thesis by blast
qed

lemma makeTmpZipFile_try_total:
  "\<exists>n. \<forall>k\<ge>n. makeTmpZipFile_try P k p args options s w \<noteq> None"
proof -
  define w1 where "w1 = with_node_path options w"
  define argv where "argv = collector_argv s args p"
  define w2 where "w2 = w1\<lparr>collector_calls := collector_calls w1 @ [argv]\<rparr>"
  note defs = makeTmpZipFile_try_def Let_def w1_def [symmetric] argv_def [symmetric]
    w2_def [symmetric]
  show ?thesis
  proof (cases "collectJsDeps P argv w1")
    case (Inl e)
    then show ?thesis by (simp add: defs)
  next
    case f: (Inr f)
    show ?thesis
    proof (cases "write_stub p s (w2\<lparr>files := f\<rparr>)")
      case (Inl e)
      then show ?thesis using f by (simp add: defs)
    next
      case w3: (Inr w3)
      from set_times_walk_total [of s w3] obtain n
        where n: "\<forall>k\<ge>n. fsWalk k files s set_times_cb w3 \<noteq> None" by blast
      have "\<forall>k\<ge>n. makeTmpZipFile_try P k p args options s w \<noteq> None"
      proof (intro allI impI)
        fix k assume "n \<le> k"
        with n obtain x where "fsWalk k files s set_times_cb w3 = Some x" by auto
        then show "makeTmpZipFile_try P k p args options s w \<noteq> None"
          using f w3 by (simp add: defs split: prod.splits sum.splits)
      qed
      then show ?thesis by blast
    qed
  qed
qed

lemma makeTmpZipFile_total: "\<exists>n. \<forall>k\<ge>n. makeTmpZipFile P k p options w \<noteq> None"
proof (cases "case cache options of None \<Rightarrow> None | Some c \<Rightarrow> c p")
  case (Some z)
  then show ?thesis by (simp add: makeTmpZipFile_def)
next
  case miss: None
  show ?thesis
  proof (cases "collect_args P options")
    case (Inl e)
    then show ?thesis using miss by (simp add: makeTmpZipFile_def)
  next
    case (Inr ao)
    obtain args options1 where ao: "ao = (args, options1)" by (cases ao)
    obtain rs w1 where td: "tmp_dir P ''aws-lambda-'' w = (rs, w1)"
      by (cases "tmp_dir P ''aws-lambda-'' w")
    show ?thesis
    proof (cases rs)
      case (Inl e)
      then show ?thesis using miss Inr ao td by (simp add: makeTmpZipFile_def)
    next
      case s: (Inr s)
      from makeTmpZipFile_try_total [of P p args options1 s w1] obtain n
        where n: "\<forall>k\<ge>n. makeTmpZipFile_try P k p args options1 s w1 \<noteq> None" by blast
      have "\<forall>k\<ge>n. makeTmpZipFile P k p options w \<noteq> None"
      proof (intro allI impI)
        fix k assume "n \<le> k"
        with n obtain x where "makeTmpZipFile_try P k p args options1 s w1 = Some x" by auto
        then show "makeTmpZipFile P k p options w \<noteq> None"
          using miss Inr ao td s by (simp add: makeTmpZipFile_def split: prod.splits)
      qed
      then show ?thesis by blast
    qed
  qed
qed

text \<open>A run that misses the cache and gets its staging directory, by what it leaves.\<close>

lemma makeTmpZipFile_miss:
  assumes miss: "(case cache options of None \<Rightarrow> None | Some c \<Rightarrow> c p) = None"
    and ca: "collect_args P options = Inr (args, options1)"
    and td: "tmp_dir P ''aws-lambda-'' w = (Inr s, w1)"
    and run: "makeTmpZipFile P fuel p options w = Some (r, options', w')"
  shows "\<exists>w2. makeTmpZipFile_try P fuel p args options1 s w1 = Some (r, options', w2)
           \<and> w' = w2\<lparr>env_NODE_PATH := Some (env_string (env_NODE_PATH w)),
                      unawaited_removes := unawaited_removes w2 @ [s]\<rparr>"
  using run miss ca td
  by (auto simp: makeTmpZipFile_def Let_def split: option.splits prod.splits)

lemma makeTmpZipFile_hit_or_early:
  assumes run: "makeTmpZipFile P fuel p options w = Some (r, options', w')"
    and early: "(case cache options of None \<Rightarrow> None | Some c \<Rightarrow> c p) \<noteq> None
       \<or> (\<exists>e. collect_args P options = Inl e)
       \<or> (\<exists>e w1. tmp_dir P ''aws-lambda-'' w = (Inl e, w1))"
  shows "env_NODE_PATH w' = env_NODE_PATH w"
  using run early tmp_dir_frame [of P "''aws-lambda-''" w]
  by (auto simp: makeTmpZipFile_def Let_def only_files_def split: option.splits prod.splits sum.splits)

lemma example_run:
  "map_option (\<lambda>x. (fst x, collector_calls (snd (snd x)), env_NODE_PATH (snd (snd x)),
        map_option (\<lambda>c. c ''lib/bar.js'') (cache (fst (snd x)))))
     (makeTmpZipFile example_platform 20 ''lib/bar.js'' example_options example_world)
   = Some (Inr [''tmp'', ''aws-lambda-1.zip''],
           [[''--outdir'', ''/tmp/aws-lambda-0'', ''lib/bar.js'']],
           Some ''undefined'',
           Some (Some [''tmp'', ''aws-lambda-1.zip'']))"
  by code_simp

lemma example_setup:
  "collect_args example_platform example_options = Inr ([], example_options)"
  "fst (tmp_dir example_platform ''aws-lambda-'' example_world) = Inr [''tmp'', ''aws-lambda-0'']"
  "cache example_options = Some (\<lambda>p. None)"
  "env_NODE_PATH example_world = None"
  by (simp_all add: collect_args_def example_options_def tmp_dir_def example_platform_def
      example_world_def Let_def)


section \<open>\<^verbatim>\<open>NODE_PATH\<close> after a call\<close>

text \<open>
  C9. \<^verbatim>\<open>_makeTmpZipFile\<close> reads \<^verbatim>\<open>NODE_PATH\<close> at line 100 and assigns the value back in
  \<^verbatim>\<open>finally\<close>, line 142. Such an assignment stores a string. So after a call that
  misses the cache and gets its staging directory, however it ends, \<^verbatim>\<open>NODE_PATH\<close> is
  set to the string form of the value it had: to the same value when it was set, to
  the string \<^verbatim>\<open>undefined\<close> when it was not set. In the second case the variable is not what
  it was before the call, as the concrete run below shows.
\<close>

theorem makeTmpZipFile_NODE_PATH_after:
  "(case cache options of None \<Rightarrow> None | Some c \<Rightarrow> c p) = None \<Longrightarrow>
   collect_args P options = Inr (args, options1) \<Longrightarrow>
   tmp_dir P ''aws-lambda-'' w = (Inr stageDir, w1) \<Longrightarrow>
   makeTmpZipFile P fuel p options w = Some (r, options', w') \<Longrightarrow>
   env_NODE_PATH w' = Some (env_string (env_NODE_PATH w))"
proof -
  assume miss: "(case cache options of None \<Rightarrow> None | Some c \<Rightarrow> c p) = None"
    and ca: "collect_args P options = Inr (args, options1)"
    and td: "tmp_dir P ''aws-lambda-'' w = (Inr stageDir, w1)"
    and run: "makeTmpZipFile P fuel p options w = Some (r, options', w')"
  from makeTmpZipFile_miss [OF miss ca td run] show ?thesis by auto
qed

theorem makeTmpZipFile_NODE_PATH_after_witness:
  "env_NODE_PATH example_world = None
   \<and> map_option (\<lambda>x. env_NODE_PATH (snd (snd x)))
        (makeTmpZipFile example_platform 20 ''lib/bar.js'' example_options example_world)
     = Some (Some ''undefined'')"
proof -
  let ?X = "makeTmpZipFile example_platform 20 ''lib/bar.js'' example_options example_world"
  obtain r o' w' where X: "?X = Some (r, o', w')"
    using example_run by (cases ?X) auto
  obtain w1 where td: "tmp_dir example_platform ''aws-lambda-'' example_world
      = (Inr [''tmp'', ''aws-lambda-0''], w1)"
    using example_setup(2) by (cases "tmp_dir example_platform ''aws-lambda-'' example_world") auto
  have miss: "(case cache example_options of None \<Rightarrow> None | Some c \<Rightarrow> c ''lib/bar.js'') = None"
    by (simp add: example_setup(3))
  from makeTmpZipFile_NODE_PATH_after [OF miss example_setup(1) td X]
  have "env_NODE_PATH w' = Some ''undefined''"
    by (simp add: example_setup(4) env_string_def)
  then show ?thesis using X example_setup(4) by simp
qed

section \<open>The listing of one key is an exact check\<close>

lemma prefix_le: "take (length k) x = k \<Longrightarrow> k \<le> (x :: string)"
proof -
  assume "take (length k) x = k"
  then have "x = k @ drop (length k) x" by (metis append_take_drop_id)
  then obtain y where x: "x = k @ y" by blast
  show ?thesis
  proof (cases y)
    case Nil
    then show ?thesis using x by simp
  next
    case (Cons b z)
    then show ?thesis using x by (simp add: list_le_def list_less_def lexord_append_rightI)
  qed
qed

lemma hd_sort_least:
  fixes k :: "'a :: linorder"
  assumes "k \<in> set xs" and "\<forall>x \<in> set xs. k \<le> x"
  shows "hd (sort xs) = k"
proof -
  have ne: "sort xs \<noteq> []" using assms(1) by (metis empty_iff list.set(1) set_sort)
  then obtain y ys where s: "sort xs = y # ys" by (cases "sort xs") auto
  have "sorted (y # ys)" using sorted_sort [of xs] s by simp
  then have "\<forall>z \<in> set (y # ys). y \<le> z" by auto
  moreover have "k \<in> set (y # ys)" using assms(1) s by (metis set_sort)
  ultimately have "y \<le> k" by blast
  moreover have "y \<in> set xs" using s by (metis list.set_intros(1) set_sort)
  then have "k \<le> y" using assms(2) by blast
  ultimately show ?thesis using s by simp
qed

text \<open>The listing of line 216 finds the key exactly when an object is stored at it.\<close>

lemma listing_exact:
  "(take 1 (sort (filter (\<lambda>x. take (length k) x = k) keys)) \<noteq> []
     \<and> hd (take 1 (sort (filter (\<lambda>x. take (length k) x = k) keys))) = k)
   = (k \<in> set (keys :: string list))"
proof -
  let ?F = "filter (\<lambda>x. take (length k) x = k) keys"
  have t1: "(take 1 (sort ?F) \<noteq> [] \<and> hd (take 1 (sort ?F)) = k) = (sort ?F \<noteq> [] \<and> hd (sort ?F) = k)"
    by (cases "sort ?F") auto
  have "(sort ?F \<noteq> [] \<and> hd (sort ?F) = k) = (k \<in> set keys)"
  proof
    assume a: "sort ?F \<noteq> [] \<and> hd (sort ?F) = k"
    then have "hd (sort ?F) \<in> set (sort ?F)" by (intro hd_in_set) simp
    then have "k \<in> set ?F" using a by (metis set_sort)
    then show "k \<in> set keys" by simp
  next
    assume k: "k \<in> set keys"
    then have kf: "k \<in> set ?F" by simp
    have "\<forall>x \<in> set ?F. k \<le> x" using prefix_le by auto
    from hd_sort_least [OF kf this] have h: "hd (sort ?F) = k" .
    have "sort ?F \<noteq> []" using kf by (metis empty_iff list.set(1) set_sort)
    then show "sort ?F \<noteq> [] \<and> hd (sort ?F) = k" using h by simp
  qed
  then show ?thesis using t1 by simp
qed

lemma store_archive_result:
  assumes b: "s3_buckets w b = Some (Owned objs)"
  shows "store_archive P b prefix zipData w =
     (Inr \<lparr>bucket = b, key = s3_key P prefix zipData\<rparr>,
      if s3_key P prefix zipData \<in> fst ` set objs
      then w\<lparr>s3_calls := s3_calls w @ [ListObjectsV2 b 1 (s3_key P prefix zipData)]\<rparr>
      else w\<lparr>s3_calls := s3_calls w @ [ListObjectsV2 b 1 (s3_key P prefix zipData),
                  Upload b (s3_key P prefix zipData) zipData (base64 P (md5 P zipData))],
              s3_buckets := (s3_buckets w)(b \<mapsto> Owned (AList.update (s3_key P prefix zipData) zipData objs))\<rparr>)"
proof -
  define k where "k = s3_key P prefix zipData"
  define L where "L = take 1 (sort (filter (\<lambda>x. take (length k) x = k) (map fst objs)))"
  define w1 where "w1 = w\<lparr>s3_calls := s3_calls w @ [ListObjectsV2 b 1 k]\<rparr>"
  have lst: "listObjectsV2 b 1 k w = (Inr L, w1)"
    using b unfolding listObjectsV2_def L_def w1_def by simp
  have cond: "(L \<noteq> [] \<and> hd L = k) = (k \<in> fst ` set objs)"
    unfolding L_def using listing_exact [of k "map fst objs"] by simp
  have up: "upload P b k zipData (base64 P (md5 P zipData)) w1
      = (Inr (), w1\<lparr>s3_calls := s3_calls w1 @ [Upload b k zipData (base64 P (md5 P zipData))],
                    s3_buckets := (s3_buckets w1)(b \<mapsto> Owned (AList.update k zipData objs))\<rparr>)"
    using b unfolding upload_def w1_def by (simp add: Let_def)
  have "store_archive P b prefix zipData w =
     (if k \<in> fst ` set objs then (Inr \<lparr>bucket = b, key = k\<rparr>, w1)
      else (Inr \<lparr>bucket = b, key = k\<rparr>,
            w1\<lparr>s3_calls := s3_calls w1 @ [Upload b k zipData (base64 P (md5 P zipData))],
               s3_buckets := (s3_buckets w1)(b \<mapsto> Owned (AList.update k zipData objs))\<rparr>))"
    unfolding store_archive_def Let_def k_def [symmetric] lst prod.case sum.case cond up ..
  then show ?thesis
    unfolding k_def [symmetric] by (simp add: w1_def)
qed

lemma update_has_key: "k \<in> fst ` set (AList.update k v al)"
  by (induction al) auto

lemma ensure_bucket_owned:
  "ensure_bucket b w = (Inr u, w1) \<Longrightarrow> \<exists>objs. s3_buckets w1 b = Some (Owned objs)"
  by (auto simp: ensure_bucket_def headBucket_def createBucket_def Let_def
      split: option.splits s3_bucket.splits if_splits)

lemma makeTmpZipFile_s3_frame:
  assumes run: "makeTmpZipFile P fuel p options w = Some (r, options', w')"
  shows "s3_buckets w' = s3_buckets w \<and> s3_calls w' = s3_calls w"
proof (cases "case cache options of None \<Rightarrow> None | Some c \<Rightarrow> c p")
  case (Some z)
  then show ?thesis using run by (simp add: makeTmpZipFile_def)
next
  case miss: None
  show ?thesis
  proof (cases "collect_args P options")
    case (Inl e)
    then show ?thesis using run miss by (simp add: makeTmpZipFile_def)
  next
    case (Inr ao)
    obtain args options1 where ao: "collect_args P options = Inr (args, options1)"
      using Inr by (cases ao) auto
    obtain rs w1 where td: "tmp_dir P ''aws-lambda-'' w = (rs, w1)"
      by (cases "tmp_dir P ''aws-lambda-'' w")
    have f1: "only_files w w1" using tmp_dir_frame [OF td] .
    show ?thesis
    proof (cases rs)
      case (Inl e)
      then have "w' = w1" using run miss ao td by (simp add: makeTmpZipFile_def)
      then show ?thesis using f1 by (simp add: only_files_def)
    next
      case s: (Inr s)
      from makeTmpZipFile_miss [OF miss ao td [unfolded s] run] obtain w2 where
        tr: "makeTmpZipFile_try P fuel p args options1 s w1 = Some (r, options', w2)"
        and w': "w' = w2\<lparr>env_NODE_PATH := Some (env_string (env_NODE_PATH w)),
                      unawaited_removes := unawaited_removes w2 @ [s]\<rparr>"
        by blast
      from makeTmpZipFile_try_result [OF tr]
      have "only_files ((with_node_path options1 w1)
            \<lparr>collector_calls := collector_calls w1 @ [collector_argv s args p]\<rparr>) w2"
        by blast
      then have "s3_buckets w2 = s3_buckets w1 \<and> s3_calls w2 = s3_calls w1"
        by (simp add: only_files_def with_node_path_def split: option.splits)
      then show ?thesis using w' f1 by (simp add: only_files_def)
    qed
  qed
qed

lemma example_s3_run:
  "map_option (\<lambda>x. (fst x, take 3 (s3_calls (snd (snd x))), length (s3_calls (snd (snd x)))))
     (packageZipS3 example_platform 20 ''lib/bar.js'' example_s3_options example_world)
   = Some (Inr \<lparr>bucket = ''aws-lambda-upload'', key = ''pre/127.zip''\<rparr>,
       [HeadBucket ''aws-lambda-upload'', CreateBucket ''aws-lambda-upload'',
        ListObjectsV2 ''aws-lambda-upload'' 1 ''pre/127.zip''], 4)"
  by code_simp

lemma example_s3_rerun:
  "(case packageZipS3 example_platform 20 ''lib/bar.js'' example_s3_options example_world of
      None \<Rightarrow> None
    | Some (r, ops, w3) \<Rightarrow>
        map_option (\<lambda>x. (fst x, drop 4 (s3_calls (snd (snd x)))))
          (packageZipS3 example_platform 20 ''lib/bar.js'' ops w3))
   = Some (Inr \<lparr>bucket = ''aws-lambda-upload'', key = ''pre/127.zip''\<rparr>,
       [HeadBucket ''aws-lambda-upload'', ListObjectsV2 ''aws-lambda-upload'' 1 ''pre/127.zip''])"
  by code_simp

lemma makeTmpZipFile_archive:
  assumes run: "makeTmpZipFile P fuel p options w = Some (Inr z, options', w')"
    and miss: "(case cache options of None \<Rightarrow> None | Some c \<Rightarrow> c p) = None"
  shows "\<exists>d. readFile (files w') z = Inr d"
proof (cases "collect_args P options")
  case (Inl e)
  then show ?thesis using run miss by (simp add: makeTmpZipFile_def)
next
  case (Inr ao)
  obtain args options1 where ao: "collect_args P options = Inr (args, options1)"
    using Inr by (cases ao) auto
  obtain rs w1 where td: "tmp_dir P ''aws-lambda-'' w = (rs, w1)"
    by (cases "tmp_dir P ''aws-lambda-'' w")
  show ?thesis
  proof (cases rs)
    case (Inl e)
    then show ?thesis using run miss ao td by (simp add: makeTmpZipFile_def)
  next
    case s: (Inr s)
    from makeTmpZipFile_miss [OF miss ao td [unfolded s] run] obtain w2 where
      tr: "makeTmpZipFile_try P fuel p args options1 s w1 = Some (Inr z, options', w2)"
      and w': "w' = w2\<lparr>env_NODE_PATH := Some (env_string (env_NODE_PATH w)),
                    unawaited_removes := unawaited_removes w2 @ [s]\<rparr>"
      by blast
    from makeTmpZipFile_try_result [OF tr] have "\<exists>d. readFile (files w2) z = Inr d" by blast
    then show ?thesis using w' by simp
  qed
qed

subsection \<open>The bucket check of \<^verbatim>\<open>packageZipS3\<close>\<close>

text \<open>
  C7. Before any archive is built, \<^verbatim>\<open>packageZipS3\<close> asks for the head of the bucket.
  If the bucket answers, packaging goes on with the bucket as it is; if the answer is
  \<^verbatim>\<open>NotFound\<close>, the bucket is created and packaging goes on; if it is \<^verbatim>\<open>Forbidden\<close>, the call
  fails with the message that tells the caller to grant permissions or change the bucket, and
  nothing but the head request has reached the store; any other error is returned unchanged,
  again with the head request as the only call.
\<close>

theorem packageZipS3_bucket_check:
  "(s3_buckets w (s3Bucket_of options) = Some (Owned objs) \<longrightarrow>
      packageZipS3 P fuel p options w
        = package_and_store P fuel p options
            (w\<lparr>s3_calls := s3_calls w @ [HeadBucket (s3Bucket_of options)]\<rparr>))
   \<and> (s3_buckets w (s3Bucket_of options) = None \<longrightarrow>
      packageZipS3 P fuel p options w
        = package_and_store P fuel p options
            (w\<lparr>s3_calls := s3_calls w @ [HeadBucket (s3Bucket_of options),
                                          CreateBucket (s3Bucket_of options)],
               s3_buckets := (s3_buckets w)(s3Bucket_of options \<mapsto> Owned [])\<rparr>))
   \<and> (s3_buckets w (s3Bucket_of options) = Some (Denied ''Forbidden'') \<longrightarrow>
      packageZipS3 P fuel p options w
        = Some (Inl (Error (forbidden_message (s3Bucket_of options))), options,
                w\<lparr>s3_calls := s3_calls w @ [HeadBucket (s3Bucket_of options)]\<rparr>))
   \<and> (s3_buckets w (s3Bucket_of options) = Some (Denied code) \<and> code \<noteq> ''Forbidden''
        \<and> code \<noteq> ''NotFound'' \<longrightarrow>
      packageZipS3 P fuel p options w
        = Some (Inl (AwsError code), options,
                w\<lparr>s3_calls := s3_calls w @ [HeadBucket (s3Bucket_of options)]\<rparr>))"
  by (simp add: packageZipS3_def ensure_bucket_def headBucket_def createBucket_def err_code_def
      Let_def)


theorem packageZipS3_bucket_check_witness:
  "s3_buckets example_forbidden_world (s3Bucket_of example_s3_options) = Some (Denied ''Forbidden'')
   \<and> packageZipS3 example_platform 20 ''lib/bar.js'' example_s3_options example_forbidden_world
       = Some (Inl (Error (forbidden_message ''aws-lambda-upload'')), example_s3_options,
               example_forbidden_world\<lparr>s3_calls := [HeadBucket ''aws-lambda-upload'']\<rparr>)
   \<and> s3_buckets example_forbidden_world (s3Bucket_of (example_s3_options\<lparr>s3Bucket := Some ''elsewhere''\<rparr>))
       = Some (Denied ''PermanentRedirect'')
   \<and> packageZipS3 example_platform 20 ''lib/bar.js'' (example_s3_options\<lparr>s3Bucket := Some ''elsewhere''\<rparr>)
         example_forbidden_world
       = Some (Inl (AwsError ''PermanentRedirect''), example_s3_options\<lparr>s3Bucket := Some ''elsewhere''\<rparr>,
               example_forbidden_world\<lparr>s3_calls := [HeadBucket ''elsewhere'']\<rparr>)
   \<and> s3_buckets example_forbidden_world (s3Bucket_of (example_s3_options\<lparr>s3Bucket := Some ''mine''\<rparr>))
       = Some (Owned [])
   \<and> packageZipS3 example_platform 20 ''lib/bar.js'' (example_s3_options\<lparr>s3Bucket := Some ''mine''\<rparr>)
         example_forbidden_world
       = package_and_store example_platform 20 ''lib/bar.js'' (example_s3_options\<lparr>s3Bucket := Some ''mine''\<rparr>)
           (example_forbidden_world\<lparr>s3_calls := [HeadBucket ''mine'']\<rparr>)
   \<and> s3_buckets example_world (s3Bucket_of example_s3_options) = None
   \<and> packageZipS3 example_platform 20 ''lib/bar.js'' example_s3_options example_world
       = package_and_store example_platform 20 ''lib/bar.js'' example_s3_options
           (example_world\<lparr>s3_calls := [HeadBucket ''aws-lambda-upload'', CreateBucket ''aws-lambda-upload''],
              s3_buckets := (s3_buckets example_world)(''aws-lambda-upload'' \<mapsto> Owned [])\<rparr>)"
proof -
  have b1: "s3Bucket_of example_s3_options = ''aws-lambda-upload''"
    and b2: "s3Bucket_of (example_s3_options\<lparr>s3Bucket := Some ''elsewhere''\<rparr>) = ''elsewhere''"
    and b3: "s3Bucket_of (example_s3_options\<lparr>s3Bucket := Some ''mine''\<rparr>) = ''mine''"
    by (simp_all add: s3Bucket_of_def example_s3_options_def defaultBucket_def)
  have s1: "s3_buckets example_forbidden_world ''aws-lambda-upload'' = Some (Denied ''Forbidden'')"
    and s2: "s3_buckets example_forbidden_world ''elsewhere'' = Some (Denied ''PermanentRedirect'')"
    and s3: "s3_buckets example_forbidden_world ''mine'' = Some (Owned [])"
    and s4: "s3_buckets example_world ''aws-lambda-upload'' = None"
    and c: "s3_calls example_forbidden_world = []" "s3_calls example_world = []"
    by (simp_all add: example_forbidden_world_def example_world_def)
  note t = packageZipS3_bucket_check [of _ _ _ example_platform 20 "''lib/bar.js''"]
  from t [of example_forbidden_world example_s3_options "[]" "''Forbidden''"]
  have r1: "packageZipS3 example_platform 20 ''lib/bar.js'' example_s3_options example_forbidden_world
       = Some (Inl (Error (forbidden_message ''aws-lambda-upload'')), example_s3_options,
               example_forbidden_world\<lparr>s3_calls := [HeadBucket ''aws-lambda-upload'']\<rparr>)"
    by (simp add: b1 s1 c)
  from t [of example_forbidden_world "example_s3_options\<lparr>s3Bucket := Some ''elsewhere''\<rparr>" "[]" "''PermanentRedirect''"]
  have r2: "packageZipS3 example_platform 20 ''lib/bar.js'' (example_s3_options\<lparr>s3Bucket := Some ''elsewhere''\<rparr>)
         example_forbidden_world
       = Some (Inl (AwsError ''PermanentRedirect''), example_s3_options\<lparr>s3Bucket := Some ''elsewhere''\<rparr>,
               example_forbidden_world\<lparr>s3_calls := [HeadBucket ''elsewhere'']\<rparr>)"
    by (simp add: b2 s2 c)
  from t [of example_forbidden_world "example_s3_options\<lparr>s3Bucket := Some ''mine''\<rparr>" "[]" "''x''"]
  have r3: "packageZipS3 example_platform 20 ''lib/bar.js'' (example_s3_options\<lparr>s3Bucket := Some ''mine''\<rparr>)
         example_forbidden_world
       = package_and_store example_platform 20 ''lib/bar.js'' (example_s3_options\<lparr>s3Bucket := Some ''mine''\<rparr>)
           (example_forbidden_world\<lparr>s3_calls := [HeadBucket ''mine'']\<rparr>)"
    by (simp add: b3 s3 c)
  from t [of example_world example_s3_options "[]" "''x''"]
  have r4: "packageZipS3 example_platform 20 ''lib/bar.js'' example_s3_options example_world
       = package_and_store example_platform 20 ''lib/bar.js'' example_s3_options
           (example_world\<lparr>s3_calls := [HeadBucket ''aws-lambda-upload'', CreateBucket ''aws-lambda-upload''],
              s3_buckets := (s3_buckets example_world)(''aws-lambda-upload'' \<mapsto> Owned [])\<rparr>)"
    by (simp add: b1 s4 c)
  show ?thesis using r1 r2 r3 r4 by (simp add: b1 b2 b3 s1 s2 s3 s4)
qed

subsection \<open>Content-addressed storage\<close>

text \<open>
  C6. Once the bucket is there and the archive has been built and read, the key under which
  \<^verbatim>\<open>packageZipS3\<close> stores it is the prefix (with a slash added when it is non-empty and does not
  end in one), the hex digest of the archive's bytes and \<^verbatim>\<open>.zip\<close>. The listing with that key as
  prefix and at most one result is issued once; when the bucket already holds an object with
  exactly that key nothing else happens, otherwise the bytes are uploaded under the key together
  with the base64 digest, after which the bucket holds the key. Both cases return the same bucket
  and key.
\<close>

theorem packageZipS3_store:
  "ensure_bucket (s3Bucket_of options) w = (Inr u, w1) \<Longrightarrow>
   makeTmpZipFile P fuel p options w1 = Some (Inr tmpPath, options1, w2) \<Longrightarrow>
   readFile (files w2) tmpPath = Inr zipData \<Longrightarrow>
   \<exists>objs. s3_buckets w2 (s3Bucket_of options) = Some (Owned objs)
     \<and> packageZipS3 P fuel p options w =
         Some (Inr \<lparr>bucket = s3Bucket_of options,
                    key = s3_key P (s3Prefix_of options) zipData\<rparr>,
               options1,
               if s3_key P (s3Prefix_of options) zipData \<in> fst ` set objs
               then w2\<lparr>s3_calls := s3_calls w2 @
                        [ListObjectsV2 (s3Bucket_of options) 1
                           (s3_key P (s3Prefix_of options) zipData)]\<rparr>
               else w2\<lparr>s3_calls := s3_calls w2 @
                        [ListObjectsV2 (s3Bucket_of options) 1
                           (s3_key P (s3Prefix_of options) zipData),
                         Upload (s3Bucket_of options) (s3_key P (s3Prefix_of options) zipData)
                           zipData (base64 P (md5 P zipData))],
                      s3_buckets := (s3_buckets w2)(s3Bucket_of options \<mapsto>
                        Owned (AList.update (s3_key P (s3Prefix_of options) zipData) zipData objs))\<rparr>)
     \<and> s3_key P (s3Prefix_of options) zipData \<in>
           fst ` set (AList.update (s3_key P (s3Prefix_of options) zipData) zipData objs)
     \<and> s3_key P (s3Prefix_of options) zipData =
         (if s3Prefix_of options \<noteq> [] \<and> last (s3Prefix_of options) \<noteq> CHR ''/''
          then s3Prefix_of options @ ''/'' else s3Prefix_of options)
           @ hex P (md5 P zipData) @ ''.zip''"
proof -
  assume eb: "ensure_bucket (s3Bucket_of options) w = (Inr u, w1)"
    and run: "makeTmpZipFile P fuel p options w1 = Some (Inr tmpPath, options1, w2)"
    and rf: "readFile (files w2) tmpPath = Inr zipData"
  from ensure_bucket_owned [OF eb] obtain objs
    where "s3_buckets w1 (s3Bucket_of options) = Some (Owned objs)" by blast
  then have o2: "s3_buckets w2 (s3Bucket_of options) = Some (Owned objs)"
    using makeTmpZipFile_s3_frame [OF run] by simp
  have "packageZipS3 P fuel p options w =
      (case store_archive P (s3Bucket_of options) (s3Prefix_of options) zipData w2 of
         (r, w3) \<Rightarrow> Some (r, options1, w3))"
    using eb run rf by (simp add: packageZipS3_def package_and_store_def)
  then have "packageZipS3 P fuel p options w =
         Some (Inr \<lparr>bucket = s3Bucket_of options,
                    key = s3_key P (s3Prefix_of options) zipData\<rparr>,
               options1,
               if s3_key P (s3Prefix_of options) zipData \<in> fst ` set objs
               then w2\<lparr>s3_calls := s3_calls w2 @
                        [ListObjectsV2 (s3Bucket_of options) 1
                           (s3_key P (s3Prefix_of options) zipData)]\<rparr>
               else w2\<lparr>s3_calls := s3_calls w2 @
                        [ListObjectsV2 (s3Bucket_of options) 1
                           (s3_key P (s3Prefix_of options) zipData),
                         Upload (s3Bucket_of options) (s3_key P (s3Prefix_of options) zipData)
                           zipData (base64 P (md5 P zipData))],
                      s3_buckets := (s3_buckets w2)(s3Bucket_of options \<mapsto>
                        Owned (AList.update (s3_key P (s3Prefix_of options) zipData) zipData objs))\<rparr>)"
    unfolding store_archive_result [OF o2] by simp
  moreover have "s3_key P (s3Prefix_of options) zipData \<in>
           fst ` set (AList.update (s3_key P (s3Prefix_of options) zipData) zipData objs)"
    by (rule update_has_key)
  moreover have "s3_key P (s3Prefix_of options) zipData =
         (if s3Prefix_of options \<noteq> [] \<and> last (s3Prefix_of options) \<noteq> CHR ''/''
          then s3Prefix_of options @ ''/'' else s3Prefix_of options)
           @ hex P (md5 P zipData) @ ''.zip''"
    by (simp add: s3_key_def Let_def)
  ultimately show ?thesis using o2 by blast
qed


theorem packageZipS3_store_witness:
  "fst (ensure_bucket (s3Bucket_of example_s3_options) example_world) = Inr ()
   \<and> map_option fst (makeTmpZipFile example_platform 20 ''lib/bar.js'' example_s3_options
         (snd (ensure_bucket (s3Bucket_of example_s3_options) example_world)))
       = Some (Inr [''tmp'', ''aws-lambda-1.zip''])
   \<and> map_option (\<lambda>x. (fst x, take 3 (s3_calls (snd (snd x))), length (s3_calls (snd (snd x)))))
         (packageZipS3 example_platform 20 ''lib/bar.js'' example_s3_options example_world)
       = Some (Inr \<lparr>bucket = ''aws-lambda-upload'', key = ''pre/127.zip''\<rparr>,
           [HeadBucket ''aws-lambda-upload'', CreateBucket ''aws-lambda-upload'',
            ListObjectsV2 ''aws-lambda-upload'' 1 ''pre/127.zip''], 4)
   \<and> (\<exists>zipData. map_option fst
          (packageZipS3 example_platform 20 ''lib/bar.js'' example_s3_options example_world)
        = Some (Inr \<lparr>bucket = ''aws-lambda-upload'',
                      key = ''pre/'' @ hex example_platform (md5 example_platform zipData) @ ''.zip''\<rparr>))"
proof -
  let ?b = "s3Bucket_of example_s3_options"
  have e1: "fst (ensure_bucket ?b example_world) = Inr ()" by code_simp
  obtain w1 where eb: "ensure_bucket ?b example_world = (Inr (), w1)"
    using e1 by (cases "ensure_bucket ?b example_world") auto
  have e2: "map_option fst (makeTmpZipFile example_platform 20 ''lib/bar.js'' example_s3_options
         (snd (ensure_bucket ?b example_world))) = Some (Inr [''tmp'', ''aws-lambda-1.zip''])"
    by code_simp
  then obtain o1 w2 where run: "makeTmpZipFile example_platform 20 ''lib/bar.js'' example_s3_options w1
      = Some (Inr [''tmp'', ''aws-lambda-1.zip''], o1, w2)"
    using eb by (cases "makeTmpZipFile example_platform 20 ''lib/bar.js'' example_s3_options w1") auto
  have "\<exists>d. readFile (files w2) [''tmp'', ''aws-lambda-1.zip''] = Inr d"
    by (rule makeTmpZipFile_archive [OF run]) (simp add: example_s3_options_def)
  then obtain zipData where rf: "readFile (files w2) [''tmp'', ''aws-lambda-1.zip''] = Inr zipData"
    by blast
  from packageZipS3_store [OF eb run rf] obtain objs where
    r: "packageZipS3 example_platform 20 ''lib/bar.js'' example_s3_options example_world =
         Some (Inr \<lparr>bucket = ?b, key = s3_key example_platform (s3Prefix_of example_s3_options) zipData\<rparr>,
               o1,
               if s3_key example_platform (s3Prefix_of example_s3_options) zipData \<in> fst ` set objs
               then w2\<lparr>s3_calls := s3_calls w2 @
                        [ListObjectsV2 ?b 1 (s3_key example_platform (s3Prefix_of example_s3_options) zipData)]\<rparr>
               else w2\<lparr>s3_calls := s3_calls w2 @
                        [ListObjectsV2 ?b 1 (s3_key example_platform (s3Prefix_of example_s3_options) zipData),
                         Upload ?b (s3_key example_platform (s3Prefix_of example_s3_options) zipData)
                           zipData (base64 example_platform (md5 example_platform zipData))],
                      s3_buckets := (s3_buckets w2)(?b \<mapsto>
                        Owned (AList.update (s3_key example_platform (s3Prefix_of example_s3_options) zipData) zipData objs))\<rparr>)"
    and k: "s3_key example_platform (s3Prefix_of example_s3_options) zipData =
         (if s3Prefix_of example_s3_options \<noteq> [] \<and> last (s3Prefix_of example_s3_options) \<noteq> CHR ''/''
          then s3Prefix_of example_s3_options @ ''/'' else s3Prefix_of example_s3_options)
           @ hex example_platform (md5 example_platform zipData) @ ''.zip''"
    by blast
  have b: "?b = ''aws-lambda-upload''" and p: "s3Prefix_of example_s3_options = ''pre''"
    by (simp_all add: s3Bucket_of_def s3Prefix_of_def example_s3_options_def defaultBucket_def)
  have "map_option fst
          (packageZipS3 example_platform 20 ''lib/bar.js'' example_s3_options example_world)
        = Some (Inr \<lparr>bucket = ''aws-lambda-upload'',
                      key = ''pre/'' @ hex example_platform (md5 example_platform zipData) @ ''.zip''\<rparr>)"
    unfolding r k by (simp add: b p)
  then show ?thesis using e1 e2 example_s3_run by blast
qed

section \<open>The helper file at the top of the staging directory\<close>

text \<open>Writing a file leaves every other path as it was.\<close>

lemma map_of_snoc_new:
  "map_of es x = None \<Longrightarrow> map_of (es @ [(x, v)]) y = (if y = x then Some v else map_of es y)"
  by (induction es) auto

lemma writeFile_other:
  "writeFile root p data t = Inr root' \<Longrightarrow> q \<noteq> p \<Longrightarrow>
     readFile root' q = readFile root q \<and> (lookup root' q = None) = (lookup root q = None)"
proof (induction root p data t arbitrary: root' q rule: writeFile.induct)
  case (1 d a m data t)
  then show ?case by (cases q) (auto simp: readFile_def)
next
  case (4 es a m x xs data t)
  show ?case
  proof (cases q)
    case Nil
    then show ?thesis using 4(2)
      by (auto simp: readFile_def split: option.splits if_splits sum.splits)
  next
    case (Cons y ys)
    show ?thesis
    proof (cases "map_of es x")
      case None
      with 4(2) have xs: "xs = []" and r: "root' = Dir (es @ [(x, File data t t)]) a t"
        by (auto split: if_splits)
      show ?thesis using 4(3) None Cons xs r
        by (cases ys) (auto simp: readFile_def map_of_snoc_new split: option.splits if_splits)
    next
      case (Some c)
      with 4(2) obtain c' where c': "writeFile c xs data t = Inr c'"
        and r: "root' = Dir (AList.update x c' es) a m"
        by (auto split: sum.splits)
      show ?thesis
      proof (cases "y = x")
        case True
        then have "ys \<noteq> xs" using 4(3) Cons by simp
        from 4(1) [OF Some c' this] show ?thesis using True Cons r Some
          by (simp add: readFile_def update_conv')
      next
        case False
        then show ?thesis using Cons r Some by (simp add: readFile_def update_conv')
      qed
    qed
  qed
qed auto

lemma write_stub_result:
  assumes ws: "write_stub startPath stageDir w = Inr w'" and dn: "dirname startPath \<noteq> ''.''"
  shows "readFile (files w') (stub_path stageDir startPath)
           = Inr (stub_contents (relative (proc_cwd w) []
                    (path_join [pp_dir (parse startPath), pp_name (parse startPath)])))"
    and "q \<noteq> stub_path stageDir startPath \<Longrightarrow> readFile (files w') q = readFile (files w) q"
    and "q \<noteq> stub_path stageDir startPath \<Longrightarrow>
           (lookup (files w') q = None) = (lookup (files w) q = None)"
proof -
  let ?c = "stub_contents (relative (proc_cwd w) []
              (path_join [pp_dir (parse startPath), pp_name (parse startPath)]))"
  from ws dn obtain f where
    wf: "writeFile (files w) (stub_path stageDir startPath) ?c (clock w) = Inr f"
    and w': "w' = w\<lparr>files := f\<rparr>"
    by (auto simp: write_stub_def Let_def split: sum.splits)
  show "readFile (files w') (stub_path stageDir startPath) = Inr ?c"
    using writeFile_readFile [OF wf] w' by simp
  show "q \<noteq> stub_path stageDir startPath \<Longrightarrow> readFile (files w') q = readFile (files w) q"
    using writeFile_other [OF wf] w' by simp
  show "q \<noteq> stub_path stageDir startPath \<Longrightarrow>
           (lookup (files w') q = None) = (lookup (files w) q = None)"
    using writeFile_other [OF wf] w' by simp
qed

text \<open>
  C8, as stated, fails. The helper file is written with \<^verbatim>\<open>fse.writeFile\<close> at
  \<^verbatim>\<open>stageDir/name.js\<close>, whatever is there. With the entry \<^verbatim>\<open>lib/foo.js\<close> and a staged
  \<^verbatim>\<open>foo.js\<close> beside the staged \<^verbatim>\<open>lib/foo.js\<close>, the staged \<^verbatim>\<open>foo.js\<close> loses its contents to the
  helper file: an existing staged file is modified, and no new file appears.
\<close>

theorem write_stub_overwrites_staged_file:
  "readFile (files example_collision_world) [''tmp'', ''stage'', ''foo.js''] = Inr ''exports.n = 1;''
   \<and> map_sum id (\<lambda>v. readFile (files v) [''tmp'', ''stage'', ''foo.js''])
         (write_stub ''lib/foo.js'' [''tmp'', ''stage''] example_collision_world)
       = Inr (Inr (stub_contents ''lib/foo''))
   \<and> stub_contents ''lib/foo'' \<noteq> ''exports.n = 1;''"
  by code_simp

text \<open>
  C8, amended. When the directory of the entry path is not \<^verbatim>\<open>.\<close> and the write succeeds,
  stub synthesis writes exactly one file, at \<^verbatim>\<open>stageDir/name.js\<close>, with the \<^verbatim>\<open>require\<close> line as
  its contents. At every other path nothing changes: a file there keeps its contents, and
  no entry appears or disappears. When nothing was staged at \<^verbatim>\<open>stageDir/name.js\<close>, the
  written file is new and every file staged before keeps its contents. Nothing but the
  file system changes.
\<close>

theorem write_stub_writes_one_file:
  "write_stub startPath stageDir w = Inr w' \<Longrightarrow> dirname startPath \<noteq> ''.'' \<Longrightarrow>
     readFile (files w') (stub_path stageDir startPath)
       = Inr (stub_contents (relative (proc_cwd w) []
                (path_join [pp_dir (parse startPath), pp_name (parse startPath)])))
     \<and> (\<forall>q. q \<noteq> stub_path stageDir startPath \<longrightarrow>
            readFile (files w') q = readFile (files w) q
            \<and> (lookup (files w') q = None) = (lookup (files w) q = None))
     \<and> (lookup (files w) (stub_path stageDir startPath) = None \<longrightarrow>
            (\<forall>q d. readFile (files w) q = Inr d \<longrightarrow> readFile (files w') q = Inr d))
     \<and> only_files w w'"
proof -
  assume ws: "write_stub startPath stageDir w = Inr w'" and dn: "dirname startPath \<noteq> ''.''"
  note r = write_stub_result [OF ws dn]
  have "readFile (files w') q = Inr d"
    if n: "lookup (files w) (stub_path stageDir startPath) = None"
      and d: "readFile (files w) q = Inr d" for q d
  proof -
    from n d have "q \<noteq> stub_path stageDir startPath" by (auto simp: readFile_def)
    then show ?thesis using r(2) d by simp
  qed
  then show ?thesis using r write_stub_frame [OF ws] by blast
qed

theorem write_stub_writes_one_file_witness:
  "dirname ''lib/bar.js'' \<noteq> ''.''
   \<and> lookup (files example_staged_world) (stub_path [''tmp'', ''stage''] ''lib/bar.js'') = None
   \<and> readFile (files example_staged_world) [''tmp'', ''stage'', ''lib'', ''bar.js''] = Inr ''bar''
   \<and> map_sum id (\<lambda>v. (readFile (files v) [''tmp'', ''stage'', ''bar.js''],
                        readFile (files v) [''tmp'', ''stage'', ''lib'', ''bar.js'']))
         (write_stub ''lib/bar.js'' [''tmp'', ''stage''] example_staged_world)
       = Inr (Inr (stub_contents ''lib/bar''), Inr ''bar'')"
proof -
  let ?w = example_staged_world and ?s = "[''tmp'', ''stage'']"
  have dn: "dirname ''lib/bar.js'' \<noteq> ''.''" by code_simp
  have sp: "stub_path ?s ''lib/bar.js'' = [''tmp'', ''stage'', ''bar.js'']" by code_simp
  have n: "lookup (files ?w) (stub_path ?s ''lib/bar.js'') = None" by code_simp
  have d: "readFile (files ?w) [''tmp'', ''stage'', ''lib'', ''bar.js''] = Inr ''bar''" by code_simp
  have rp: "relative (proc_cwd ?w) []
              (path_join [pp_dir (parse ''lib/bar.js''), pp_name (parse ''lib/bar.js'')]) = ''lib/bar''"
    by code_simp
  have "\<not> isl (write_stub ''lib/bar.js'' ?s ?w)" by code_simp
  then obtain w' where ws: "write_stub ''lib/bar.js'' ?s ?w = Inr w'"
    by (cases "write_stub ''lib/bar.js'' ?s ?w") auto
  from write_stub_writes_one_file [OF ws dn]
  have "readFile (files w') [''tmp'', ''stage'', ''bar.js''] = Inr (stub_contents ''lib/bar'')"
    and "\<forall>q d. readFile (files ?w) q = Inr d \<longrightarrow> readFile (files w') q = Inr d"
    using n by (simp_all add: sp rp)
  then have "readFile (files w') [''tmp'', ''stage'', ''bar.js''] = Inr (stub_contents ''lib/bar'')"
    and "readFile (files w') [''tmp'', ''stage'', ''lib'', ''bar.js''] = Inr ''bar''"
    using d by blast+
  then show ?thesis using dn n d ws by simp
qed

text \<open>
  C2. The test of line 113 is on the text of the entry path: \<^verbatim>\<open>path.dirname(startPath)\<close>
  is compared with \<^verbatim>\<open>.\<close>. An entry at the top of the working directory that is named by
  an absolute path, as \<^verbatim>\<open>cloudformationPackage\<close> names every entry (line 301), or with a
  detour such as \<^verbatim>\<open>lib/../foo.js\<close>, has another directory text. For such an entry the
  collector has staged the entry at \<^verbatim>\<open>stageDir/foo.js\<close>; the helper file is written to that
  same path, and what it requires, \<^verbatim>\<open>./foo\<close>, is itself. The staging directory then still lists
  one file, \<^verbatim>\<open>foo.js\<close>, and the code of the entry is gone: the helper file does not reach the
  staged entry.
\<close>

theorem write_stub_top_level_entry:
  "dirname ''/proj/foo.js'' = ''/proj''
   \<and> proc_cwd example_top_world = ''/proj''
   \<and> readdir (files example_top_world) [''tmp'', ''stage''] = Inr [''foo.js'']
   \<and> readFile (files example_top_world) [''tmp'', ''stage'', ''foo.js''] = Inr ''exports.handler = run;''
   \<and> stub_path [''tmp'', ''stage''] ''/proj/foo.js'' = [''tmp'', ''stage'', ''foo.js'']
   \<and> map_sum id (\<lambda>v. (readdir (files v) [''tmp'', ''stage''],
                        readFile (files v) [''tmp'', ''stage'', ''foo.js'']))
         (write_stub ''/proj/foo.js'' [''tmp'', ''stage''] example_top_world)
       = Inr (Inr [''foo.js''], Inr (stub_contents ''foo''))
   \<and> dirname ''lib/../foo.js'' = ''lib/..''
   \<and> map_sum id (\<lambda>v. (readdir (files v) [''tmp'', ''stage''],
                        readFile (files v) [''tmp'', ''stage'', ''foo.js'']))
         (write_stub ''lib/../foo.js'' [''tmp'', ''stage''] example_top_world)
       = Inr (Inr [''foo.js''], Inr (stub_contents ''foo''))
   \<and> stub_contents ''foo'' = ''module.exports = require('' @ [CHR 0x22] @ ''./foo'' @ [CHR 0x22]
         @ '');'' @ [CHR 0x0A]"
  by code_simp

section \<open>Reproducible archives\<close>

text \<open>
  A walk that has ended with some fuel ends the same way with more; so what is known
  of the walk with enough fuel holds of every walk that returned.
\<close>

lemma fsWalk_loop_more_fuel:
  "fsWalk_loop k fsof cb todo w = Some r \<Longrightarrow> fsWalk_loop (k + j) fsof cb todo w = Some r"
proof (induction k fsof cb todo w rule: fsWalk_loop.induct)
  case (1 fsof cb todo w)
  then show ?case by simp
next
  case (2 k fsof cb todo w)
  show ?case
  proof (cases "todo = []")
    case True
    then show ?thesis using "2.prems" by simp
  next
    case False
    obtain fpath st where l: "last todo = (fpath, st)" by (cases "last todo")
    show ?thesis
    proof (cases "cb fpath st w")
      case (Inl e)
      then show ?thesis using "2.prems" False l by simp
    next
      case (Inr w1)
      show ?thesis
      proof (cases "isDirectory st")
        case dir: True
        show ?thesis
        proof (cases "readdir (fsof w1) fpath")
          case (Inl e)
          then show ?thesis using "2.prems" False l Inr dir by simp
        next
          case rd: (Inr entries)
          show ?thesis
          proof (cases "stat_all (fsof w1) (map (\<lambda>e. fpath @ [e]) (rev (sort entries)))")
            case (Inl e)
            then show ?thesis using "2.prems" False l Inr dir rd by (simp add: Let_def)
          next
            case sa: (Inr sts)
            from "2.prems" False l Inr dir rd sa
            have "fsWalk_loop k fsof cb
                    (butlast todo @ zip (map (\<lambda>e. fpath @ [e]) (rev (sort entries))) sts) w1 = Some r"
              by (simp add: Let_def)
            from "2.IH"(1) [OF False l [symmetric] Inr dir rd refl sa this]
            show ?thesis using False l Inr dir rd sa by (simp add: Let_def)
          qed
        qed
      next
        case nd: False
        from "2.prems" False l Inr nd
        have "fsWalk_loop k fsof cb (butlast todo) w1 = Some r" by simp
        from "2.IH"(2) [OF False l [symmetric] Inr nd this]
        show ?thesis using False l Inr nd by simp
      qed
    qed
  qed
qed

lemma fsWalk_more_fuel:
  "fsWalk k fsof topDir cb w = Some r \<Longrightarrow> k \<le> k' \<Longrightarrow> fsWalk k' fsof topDir cb w = Some r"
  using fsWalk_loop_more_fuel [of k fsof cb _ w r "k' - k"]
  by (auto simp: fsWalk_def split: sum.splits)

lemma set_times_walk_any_fuel:
  assumes run: "fsWalk fuel files s set_times_cb w = Some (Inr u, w')"
  shows "\<exists>t t'. lookup (files w) s = Some t \<and> lookup (files w') s = Some t'
           \<and> content_view t' = content_view t
           \<and> (\<forall>q n. lookup t' q = Some n \<longrightarrow> mtime n = 0)"
proof (cases "lookup (files w) s")
  case None
  then show ?thesis using run by (simp add: fsWalk_def stat_def)
next
  case (Some t)
  let ?K = "max fuel (Suc (length (visit_order s t)))"
  have "length (visit_order s t) < ?K" by simp
  from set_times_walk_result [OF Some this] obtain v where
    v: "fsWalk ?K files s set_times_cb w = Some (Inr (), v)"
    and z: "\<forall>q n. lookup (files v) (s @ q) = Some n \<longrightarrow> mtime n = 0"
    and c: "content_view (files v) = content_view (files w)"
    by blast
  from fsWalk_more_fuel [OF run, of ?K] v have w': "w' = v" by simp
  have "lookup (content_view (files w')) s = lookup (content_view (files w)) s"
    using c w' by simp
  then have m: "map_option content_view (lookup (files w') s) = Some (content_view t)"
    using Some by (simp add: content_view_def lookup_view)
  then obtain t' where t': "lookup (files w') s = Some t'" and ct: "content_view t' = content_view t"
    by (cases "lookup (files w') s") auto
  have "\<forall>q n. lookup t' q = Some n \<longrightarrow> mtime n = 0"
    using z t' w' by (simp add: lookup_append)
  then show ?thesis using Some t' ct by blast
qed

lemma wf_tree_view: "wf_tree (view fd fa fm t) = wf_tree t"
proof (induction t)
  case (File d a m)
  show ?case by simp
next
  case (Dir es a m)
  have "list_all (\<lambda>(n, c). wf_tree c) (map (\<lambda>(n, c). (n, view fd fa fm c)) es)
      = list_all (\<lambda>(n, c). wf_tree c) es"
    using Dir by (auto simp: list_all_iff)
  then show ?case by (simp del: map_map)
qed

lemma zip_view_zero:
  "wf_tree t \<Longrightarrow> (\<forall>q n. lookup t q = Some n \<longrightarrow> mtime n = 0) \<Longrightarrow> zip_view t = content_view t"
proof (induction t)
  case (File d a m)
  from File(2) [rule_format, of "[]"] show ?case by (simp add: zip_view_def content_view_def)
next
  case (Dir es a m)
  from Dir(3) [rule_format, of "[]"] have m: "m = 0" by simp
  have "view (\<lambda>d. d) (\<lambda>a. 0) (\<lambda>m. m) c = view (\<lambda>d. d) (\<lambda>a. 0) (\<lambda>m. 0) c"
    if e: "(x, c) \<in> set es" for x c
  proof -
    have wc: "wf_tree c" using Dir(2) e by (auto simp: list_all_iff)
    have mo: "map_of es x = Some c" using Dir(2) e by simp
    have "\<forall>q n. lookup c q = Some n \<longrightarrow> mtime n = 0"
    proof (intro allI impI)
      fix q n assume "lookup c q = Some n"
      then have "lookup (Dir es a m) (x # q) = Some n" using mo by simp
      then show "mtime n = 0" using Dir(3) by blast
    qed
    from Dir(1) [of "(x, c)" c, OF e _ wc this] show ?thesis
      by (simp add: zip_view_def content_view_def)
  qed
  then show ?case using m by (auto simp: zip_view_def content_view_def)
qed

lemma writeFile_content_view:
  "writeFile (content_view n) q d 0
     = (case writeFile n q d t of Inl e \<Rightarrow> Inl e | Inr n' \<Rightarrow> Inr (content_view n'))"
proof (induction n q d t rule: writeFile.induct)
  case (4 es a m x xs data t)
  let ?v = "view (\<lambda>d. d) (\<lambda>a. 0) (\<lambda>m. 0)"
  show ?case
  proof (cases "map_of es x")
    case None
    then show ?thesis by (simp add: content_view_def map_of_view)
  next
    case (Some c)
    from "4.IH" [OF Some] have ih: "writeFile (?v c) xs data 0
        = (case writeFile c xs data t of Inl e \<Rightarrow> Inl e | Inr n' \<Rightarrow> Inr (?v n'))"
      unfolding content_view_def .
    show ?thesis using Some ih
      by (cases "writeFile c xs data t") (simp_all add: content_view_def map_of_view map_of_update_view)
  qed
qed (simp_all add: content_view_def)

lemma writeFile_below:
  "lookup root p = Some n \<Longrightarrow> writeFile root (p @ q) d t = Inr root' \<Longrightarrow>
     \<exists>n'. writeFile n q d t = Inr n' \<and> lookup root' p = Some n'"
proof (induction p arbitrary: root root')
  case Nil
  then show ?case by simp
next
  case (Cons x ps)
  from Cons.prems(1) obtain es a m c where root: "root = Dir es a m" and c: "map_of es x = Some c"
    and l: "lookup c ps = Some n"
    by (cases root) (auto split: option.splits)
  from Cons.prems(2) root c obtain c' where w: "writeFile c (ps @ q) d t = Inr c'"
    and r: "root' = Dir (AList.update x c' es) a m"
    by (auto split: sum.splits)
  from Cons.IH [OF l w] show ?case using r by (simp add: update_conv')
qed

lemma wf_tree_update:
  "wf_tree (Dir es a m) \<Longrightarrow> wf_tree c \<Longrightarrow> wf_tree (Dir (AList.update x c es) a' m')"
proof -
  assume w: "wf_tree (Dir es a m)" and c: "wf_tree c"
  have "set (AList.update x c es) \<subseteq> insert (x, c) (set es)" by (induction es) auto
  then have "list_all (\<lambda>(n, c). wf_tree c) (AList.update x c es)"
    using w c by (auto simp: list_all_iff)
  then show ?thesis using w by (simp add: distinct_update)
qed

lemma writeFile_wf:
  "wf_tree n \<Longrightarrow> writeFile n q d t = Inr n' \<Longrightarrow> wf_tree n'"
proof (induction n q d t arbitrary: n' rule: writeFile.induct)
  case (4 es a m x xs data t)
  show ?case
  proof (cases "map_of es x")
    case None
    then have "x \<notin> fst ` set es" by (simp add: map_of_eq_None_iff)
    then show ?thesis using "4.prems" None by (auto split: if_splits)
  next
    case (Some c)
    then obtain c' where w: "writeFile c xs data t = Inr c'" and n': "n' = Dir (AList.update x c' es) a m"
      using "4.prems" by (auto split: sum.splits)
    have "(x, c) \<in> set es" using Some by (rule map_of_SomeD)
    then have "wf_tree c" using "4.prems"(1) by (auto simp: list_all_iff)
    from "4.IH" [OF Some this w] show ?thesis using "4.prems"(1) n' by (simp only: wf_tree_update)
  qed
qed auto

lemma mknod_new: "mknod root p new t = Inr root' \<Longrightarrow> lookup root p = None"
  by (induction root p new t arbitrary: root' rule: mknod.induct)
    (auto split: option.splits sum.splits if_splits)

lemma mknod_elsewhere:
  "mknod root p new t = Inr root' \<Longrightarrow> length p \<le> length q \<Longrightarrow> take (length p) q \<noteq> p \<Longrightarrow>
     lookup root' q = lookup root q"
proof (induction root p new t arbitrary: root' q rule: mknod.induct)
  case (3 es a m x xs new t)
  from "3.prems"(2) obtain y ys where q: "q = y # ys" by (cases q) auto
  show ?case
  proof (cases "map_of es x")
    case None
    with "3.prems"(1) have xs: "xs = []" and r: "root' = Dir (es @ [(x, new)]) a t"
      by (auto split: if_splits)
    have "y \<noteq> x" using "3.prems"(3) q xs by simp
    then show ?thesis using q r None by (simp add: map_of_snoc_new del: map_of_append)
  next
    case (Some c)
    with "3.prems"(1) obtain c' where c': "mknod c xs new t = Inr c'"
      and r: "root' = Dir (AList.update x c' es) a m"
      by (auto split: sum.splits)
    show ?thesis
    proof (cases "y = x")
      case True
      then have "length xs \<le> length ys" "take (length xs) ys \<noteq> xs"
        using "3.prems"(2,3) q by simp_all
      from "3.IH" [OF Some c' this] show ?thesis using True q r Some by (simp add: update_conv')
    next
      case False
      then show ?thesis using q r by (simp add: update_conv')
    qed
  qed
qed auto

lemma remove_elsewhere:
  "length p \<le> length q \<Longrightarrow> take (length p) q \<noteq> p \<Longrightarrow> lookup (remove root p t) q = lookup root q"
proof (induction root p t arbitrary: q rule: remove.induct)
  case (3 es a m x xs t)
  from "3.prems"(1) obtain y ys where q: "q = y # ys" by (cases q) auto
  show ?case
  proof (cases "map_of es x")
    case None
    then show ?thesis by simp
  next
    case (Some c)
    show ?thesis
    proof (cases "xs = []")
      case True
      then have "y \<noteq> x" using "3.prems"(2) q by simp
      then show ?thesis using q Some True by (simp add: delete_conv')
    next
      case False
      show ?thesis
      proof (cases "y = x")
        case True
        then have "length xs \<le> length ys" "take (length xs) ys \<noteq> xs"
          using "3.prems" q by simp_all
        from "3.IH" [OF Some False this] show ?thesis using True q Some False
          by (simp add: update_conv')
      next
        case ne: False
        then show ?thesis using q Some False by (simp add: update_conv')
      qed
    qed
  qed
qed auto


lemma makeTmpZipFile_try_steps:
  assumes run: "makeTmpZipFile_try P fuel p args options s w = Some (Inr z, options', w')"
  shows "\<exists>f w3 u w4 w5.
     collectJsDeps P (collector_argv s args p) (with_node_path options w) = Inr f
     \<and> write_stub p s ((with_node_path options w)
          \<lparr>collector_calls := collector_calls (with_node_path options w) @ [collector_argv s args p],
            files := f\<rparr>) = Inr w3
     \<and> fsWalk fuel files s set_times_cb w3 = Some (Inr u, w4)
     \<and> tmp_file P ''aws-lambda-'' ''.zip'' w4 = (Inr z, w5)
     \<and> run_zip P z s (w5\<lparr>files := remove (files w5) z (clock w5)\<rparr>) = (Inr 0, w')"
proof -
  define w1 where "w1 = with_node_path options w"
  define argv where "argv = collector_argv s args p"
  define w2 where "w2 = w1\<lparr>collector_calls := collector_calls w1 @ [argv]\<rparr>"
  note defs = makeTmpZipFile_try_def Let_def w1_def [symmetric] argv_def [symmetric]
    w2_def [symmetric]
  from run obtain f where f: "collectJsDeps P argv w1 = Inr f"
    by (cases "collectJsDeps P argv w1") (simp_all add: defs)
  from run f obtain w3 where w3: "write_stub p s (w2\<lparr>files := f\<rparr>) = Inr w3"
    by (cases "write_stub p s (w2\<lparr>files := f\<rparr>)") (simp_all add: defs)
  from run f w3 obtain rw w4 where walk: "fsWalk fuel files s set_times_cb w3 = Some (rw, w4)"
    by (auto simp: defs split: option.splits)
  from run f w3 walk obtain u where u: "rw = Inr u" by (cases rw) (simp_all add: defs)
  obtain rz w5 where tf: "tmp_file P ''aws-lambda-'' ''.zip'' w4 = (rz, w5)"
    by (cases "tmp_file P ''aws-lambda-'' ''.zip'' w4")
  from run f w3 walk u tf obtain z0 where z0: "rz = Inr z0" by (cases rz) (simp_all add: defs)
  define w6 where "w6 = w5\<lparr>files := remove (files w5) z0 (clock w5)\<rparr>"
  obtain outcome w7 where rzip: "run_zip P z0 s w6 = (outcome, w7)"
    by (cases "run_zip P z0 s w6")
  from run f w3 walk u tf z0 rzip obtain u' where sp: "spawn outcome = Inr u'"
    by (cases "spawn outcome") (simp_all add: defs w6_def [symmetric])
  from run f w3 walk u tf z0 rzip sp have res: "z = z0" "w' = w7"
    by (simp_all add: defs w6_def [symmetric])
  from spawn_Inr [OF sp] have "outcome = Inr 0" .
  then show ?thesis using f w3 walk u tf z0 rzip res
    by (auto simp: w1_def argv_def w2_def w6_def)
qed

lemma tmp_dir_path: "tmp_dir P pre w = (Inr s, w') \<Longrightarrow> length s = Suc (length (tmpdir P))"
  by (auto simp: tmp_dir_def Let_def split: sum.splits)

lemma tmp_file_result:
  "tmp_file P pre post w = (Inr z, w') \<Longrightarrow>
     length z = Suc (length (tmpdir P)) \<and> lookup (files w) z = None
     \<and> (\<exists>f. mknod (files w) z (File [] (clock w) (clock w)) (clock w) = Inr f \<and> files w' = f)"
  by (auto simp: tmp_file_def Let_def split: sum.splits dest: mknod_new)

lemma run_zip_bytes:
  "run_zip P z s w = (Inr 0, w') \<Longrightarrow> lookup (files w) s = Some t \<Longrightarrow>
     \<exists>bytes. zip_tool P (zip_view t) = Inr (0, bytes) \<and> readFile (files w') z = Inr bytes"
  by (auto simp: run_zip_def Let_def dest: writeFile_readFile
      split: option.splits sum.splits if_splits prod.splits)

text \<open>What the archive of a run holds, from what the collector staged.\<close>

lemma makeTmpZipFile_try_archive:
  assumes run: "makeTmpZipFile_try P fuel p args options s w = Some (Inr z, options', w')"
    and c: "collectJsDeps P (collector_argv s args p) (with_node_path options w) = Inr f"
    and t: "lookup f s = Some t" and wf: "wf_tree t"
    and s: "length s = Suc (length (tmpdir P))"
  shows "\<exists>t3 bytes.
      (if dirname p \<noteq> ''.''
       then writeFile (content_view t) [pp_name (parse p) @ ''.js'']
              (stub_contents (relative (proc_cwd w) []
                 (path_join [pp_dir (parse p), pp_name (parse p)]))) 0
       else Inr (content_view t)) = Inr t3
      \<and> zip_tool P t3 = Inr (0, bytes) \<and> readFile (files w') z = Inr bytes"
proof -
  let ?w2 = "(with_node_path options w)
          \<lparr>collector_calls := collector_calls (with_node_path options w) @ [collector_argv s args p],
            files := f\<rparr>"
  let ?c = "stub_contents (relative (proc_cwd w) []
                 (path_join [pp_dir (parse p), pp_name (parse p)]))"
  let ?e = "if dirname p \<noteq> ''.''
       then writeFile (content_view t) [pp_name (parse p) @ ''.js''] ?c 0
       else Inr (content_view t)"
  from makeTmpZipFile_try_steps [OF run] c obtain w3 u w4 w5 where
    ws: "write_stub p s ?w2 = Inr w3"
    and walk: "fsWalk fuel files s set_times_cb w3 = Some (Inr u, w4)"
    and tf: "tmp_file P ''aws-lambda-'' ''.zip'' w4 = (Inr z, w5)"
    and rz: "run_zip P z s (w5\<lparr>files := remove (files w5) z (clock w5)\<rparr>) = (Inr 0, w')"
    by auto
  have cwd: "proc_cwd ?w2 = proc_cwd w" by (simp add: with_node_path_def split: option.splits)
  have "\<exists>t3. lookup (files w3) s = Some t3 \<and> wf_tree t3 \<and> ?e = Inr (content_view t3)"
  proof (cases "dirname p \<noteq> ''.''")
    case False
    then have "w3 = ?w2" using ws by (simp add: write_stub_def)
    then show ?thesis using False t wf by simp
  next
    case True
    from ws True obtain f3 where
      w: "writeFile f (s @ [pp_name (parse p) @ ''.js'']) ?c (clock w) = Inr f3"
      and w3: "files w3 = f3"
      by (auto simp: write_stub_def Let_def stub_path_def with_node_path_def
          split: sum.splits option.splits)
    from writeFile_below [OF t w] obtain t3 where
      w': "writeFile t [pp_name (parse p) @ ''.js''] ?c (clock w) = Inr t3"
      and l: "lookup f3 s = Some t3"
      by blast
    have "writeFile (content_view t) [pp_name (parse p) @ ''.js''] ?c 0 = Inr (content_view t3)"
      using writeFile_content_view [of t "[pp_name (parse p) @ ''.js'']" ?c "clock w"] w'
      by simp
    then show ?thesis using True l w3 writeFile_wf [OF wf w'] by auto
  qed
  then obtain t3 where l3: "lookup (files w3) s = Some t3" and wf3: "wf_tree t3"
    and e: "?e = Inr (content_view t3)"
    by blast
  from set_times_walk_any_fuel [OF walk] l3 obtain t4 where
    l4: "lookup (files w4) s = Some t4" and c4: "content_view t4 = content_view t3"
    and z4: "\<forall>q n. lookup t4 q = Some n \<longrightarrow> mtime n = 0"
    by auto
  have "wf_tree (content_view t4)" using c4 wf3 by (simp add: content_view_def wf_tree_view)
  then have wf4: "wf_tree t4" by (simp add: content_view_def wf_tree_view)
  have zv: "zip_view t4 = content_view t3" using zip_view_zero [OF wf4 z4] c4 by simp
  from tmp_file_result [OF tf] obtain f5 where
    lz: "length z = Suc (length (tmpdir P))" and nz: "lookup (files w4) z = None"
    and mk: "mknod (files w4) z (File [] (clock w4) (clock w4)) (clock w4) = Inr f5"
    and f5: "files w5 = f5"
    by blast
  have ne: "take (length z) s \<noteq> z" using lz s nz l4 by auto
  have le: "length z \<le> length s" using lz s by simp
  have "lookup (remove (files w5) z (clock w5)) s = lookup (files w5) s"
    by (rule remove_elsewhere [OF le ne])
  also have "\<dots> = lookup (files w4) s" using mknod_elsewhere [OF mk le ne] f5 by simp
  finally have l6: "lookup (files (w5\<lparr>files := remove (files w5) z (clock w5)\<rparr>)) s = Some t4"
    using l4 by simp
  from run_zip_bytes [OF rz l6] zv e show ?thesis by auto
qed


lemma makeTmpZipFile_archive_bytes:
  assumes miss: "(case cache options of None \<Rightarrow> None | Some c \<Rightarrow> c p) = None"
    and st: "staged_tree P p options w = Some t" and wf: "wf_tree t"
    and run: "makeTmpZipFile P fuel p options w = Some (Inr z, options', w')"
  shows "\<exists>t3 bytes.
      (if dirname p \<noteq> ''.''
       then writeFile (content_view t) [pp_name (parse p) @ ''.js'']
              (stub_contents (relative (proc_cwd w) []
                 (path_join [pp_dir (parse p), pp_name (parse p)]))) 0
       else Inr (content_view t)) = Inr t3
      \<and> zip_tool P t3 = Inr (0, bytes) \<and> readFile (files w') z = Inr bytes"
proof -
  from st obtain args options1 s w1 f where
    ca: "collect_args P options = Inr (args, options1)"
    and td: "tmp_dir P ''aws-lambda-'' w = (Inr s, w1)"
    and c: "collectJsDeps P (collector_argv s args p) (with_node_path options1 w1) = Inr f"
    and t: "lookup f s = Some t"
    by (auto simp: staged_tree_def split: sum.splits prod.splits)
  from makeTmpZipFile_miss [OF miss ca td run] obtain w2 where
    tr: "makeTmpZipFile_try P fuel p args options1 s w1 = Some (Inr z, options', w2)"
    and w': "w' = w2\<lparr>env_NODE_PATH := Some (env_string (env_NODE_PATH w)),
                    unawaited_removes := unawaited_removes w2 @ [s]\<rparr>"
    by blast
  have cwd: "proc_cwd w1 = proc_cwd w" using tmp_dir_frame [OF td] by (simp add: only_files_def)
  have fw: "files w' = files w2" using w' by simp
  from makeTmpZipFile_try_archive [OF tr c t wf tmp_dir_path [OF td]]
  show ?thesis unfolding cwd fw .
qed

lemma example_later_run:
  "map_option fst (makeTmpZipFile example_platform 20 ''lib/bar.js'' example_options example_later_world)
     = Some (Inr [''tmp'', ''aws-lambda-8.zip''])"
  by code_simp

lemma example_staged_trees:
  "staged_tree example_platform ''lib/bar.js'' example_options example_world
     = Some (view (\<lambda>d. d) (\<lambda>a. a + 1000) (\<lambda>m. m + 1000) example_staged)"
  "staged_tree example_platform ''lib/bar.js'' example_options example_later_world
     = Some (view (\<lambda>d. d) (\<lambda>a. a + 2000) (\<lambda>m. m + 2000) example_staged)"
  by code_simp+

text \<open>
  C3. Take two calls of \<^verbatim>\<open>_makeTmpZipFile\<close> for the same entry path, from the same working
  directory, each missing the cache and each returning an archive path, on any two
  states (so each has its own staging directory and its own archive path). If the trees
  the collector staged in the two calls have the same names, in the same listing order,
  and the same file contents, whatever their times, and no directory lists a name twice,
  then the two archives are files with the same bytes.
\<close>

theorem makeTmpZipFile_reproducible:
  assumes "(case cache optionsA of None \<Rightarrow> None | Some c \<Rightarrow> c p) = None"
    and "(case cache optionsB of None \<Rightarrow> None | Some c \<Rightarrow> c p) = None"
    and "staged_tree P p optionsA wA = Some tA" and "staged_tree P p optionsB wB = Some tB"
    and "wf_tree tA" and "wf_tree tB"
    and "content_view tA = content_view tB"
    and "proc_cwd wA = proc_cwd wB"
    and "makeTmpZipFile P fuelA p optionsA wA = Some (Inr zA, optionsA', wA')"
    and "makeTmpZipFile P fuelB p optionsB wB = Some (Inr zB, optionsB', wB')"
  shows "\<exists>bytes. readFile (files wA') zA = Inr bytes \<and> readFile (files wB') zB = Inr bytes"
proof -
  from makeTmpZipFile_archive_bytes [OF assms(1,3,5,9)] obtain t3 bytes where
    a: "(if dirname p \<noteq> ''.''
       then writeFile (content_view tA) [pp_name (parse p) @ ''.js'']
              (stub_contents (relative (proc_cwd wA) []
                 (path_join [pp_dir (parse p), pp_name (parse p)]))) 0
       else Inr (content_view tA)) = Inr t3"
    and za: "zip_tool P t3 = Inr (0, bytes)" and ra: "readFile (files wA') zA = Inr bytes"
    by blast
  from makeTmpZipFile_archive_bytes [OF assms(2,4,6,10)] obtain t3' bytes' where
    b: "(if dirname p \<noteq> ''.''
       then writeFile (content_view tB) [pp_name (parse p) @ ''.js'']
              (stub_contents (relative (proc_cwd wB) []
                 (path_join [pp_dir (parse p), pp_name (parse p)]))) 0
       else Inr (content_view tB)) = Inr t3'"
    and zb: "zip_tool P t3' = Inr (0, bytes')" and rb: "readFile (files wB') zB = Inr bytes'"
    by blast
  from b have "(Inr t3 :: err + fsnode) = Inr t3'"
    unfolding assms(7) [symmetric] assms(8) [symmetric] a .
  then have "t3' = t3" by simp
  then have "bytes' = bytes" using za zb by simp
  then show ?thesis using ra rb by blast
qed

theorem makeTmpZipFile_reproducible_witness:
  "staged_tree example_platform ''lib/bar.js'' example_options example_world
     \<noteq> staged_tree example_platform ''lib/bar.js'' example_options example_later_world
   \<and> map_option fst (makeTmpZipFile example_platform 20 ''lib/bar.js'' example_options example_world)
       = Some (Inr [''tmp'', ''aws-lambda-1.zip''])
   \<and> map_option fst (makeTmpZipFile example_platform 20 ''lib/bar.js'' example_options example_later_world)
       = Some (Inr [''tmp'', ''aws-lambda-8.zip''])
   \<and> (\<exists>bytes.
         map_option (\<lambda>x. readFile (files (snd (snd x))) [''tmp'', ''aws-lambda-1.zip''])
           (makeTmpZipFile example_platform 20 ''lib/bar.js'' example_options example_world)
           = Some (Inr bytes)
       \<and> map_option (\<lambda>x. readFile (files (snd (snd x))) [''tmp'', ''aws-lambda-8.zip''])
           (makeTmpZipFile example_platform 20 ''lib/bar.js'' example_options example_later_world)
           = Some (Inr bytes))"
proof -
  let ?A = "makeTmpZipFile example_platform 20 ''lib/bar.js'' example_options example_world"
  let ?B = "makeTmpZipFile example_platform 20 ''lib/bar.js'' example_options example_later_world"
  let ?tA = "view (\<lambda>d. d) (\<lambda>a. a + 1000) (\<lambda>m. m + 1000) example_staged"
  let ?tB = "view (\<lambda>d. d) (\<lambda>a. a + 2000) (\<lambda>m. m + 2000) example_staged"
  have fa: "map_option fst ?A = Some (Inr [''tmp'', ''aws-lambda-1.zip''])"
    using example_run by (cases ?A) auto
  then obtain oA wA' where A: "?A = Some (Inr [''tmp'', ''aws-lambda-1.zip''], oA, wA')"
    by (cases ?A) auto
  obtain oB wB' where B: "?B = Some (Inr [''tmp'', ''aws-lambda-8.zip''], oB, wB')"
    using example_later_run by (cases ?B) auto
  have miss: "(case cache example_options of None \<Rightarrow> None | Some c \<Rightarrow> c ''lib/bar.js'') = None"
    by (simp add: example_options_def)
  have wf: "wf_tree ?tA" "wf_tree ?tB" by code_simp+
  have same: "content_view ?tA = content_view ?tB"
    by (simp add: content_view_def view_view comp_def)
  have cwd: "proc_cwd example_world = proc_cwd example_later_world"
    by (simp add: example_later_world_def)
  have ne: "?tA \<noteq> ?tB" by code_simp
  from makeTmpZipFile_reproducible [OF miss miss example_staged_trees wf same cwd A B]
  obtain bytes where "readFile (files wA') [''tmp'', ''aws-lambda-1.zip''] = Inr bytes"
    and "readFile (files wB') [''tmp'', ''aws-lambda-8.zip''] = Inr bytes"
    by blast
  then show ?thesis using A B ne example_staged_trees by auto
qed

section \<open>The packaging cache\<close>

text \<open>
  A call that returns an archive has run the collector, and the collector has left the
  staging directory in place; a rejection of the collector is the rejection of the call.
\<close>

lemma makeTmpZipFile_try_staged:
  assumes run: "makeTmpZipFile_try P fuel p args options s w = Some (Inr z, options', w')"
  shows "\<exists>f t. collectJsDeps P (collector_argv s args p) (with_node_path options w) = Inr f
           \<and> lookup f s = Some t"
proof -
  let ?w2 = "(with_node_path options w)
          \<lparr>collector_calls := collector_calls (with_node_path options w) @ [collector_argv s args p]\<rparr>"
  from makeTmpZipFile_try_steps [OF run] obtain f w3 u w4 where
    c: "collectJsDeps P (collector_argv s args p) (with_node_path options w) = Inr f"
    and ws: "write_stub p s (?w2\<lparr>files := f\<rparr>) = Inr w3"
    and walk: "fsWalk fuel files s set_times_cb w3 = Some (Inr u, w4)"
    by auto
  from set_times_walk_any_fuel [OF walk] have l3: "lookup (files w3) s \<noteq> None" by auto
  have "lookup f s \<noteq> None"
  proof (cases "dirname p \<noteq> ''.''")
    case False
    then have "w3 = ?w2\<lparr>files := f\<rparr>" using ws by (simp add: write_stub_def)
    then show ?thesis using l3 by simp
  next
    case True
    have "s \<noteq> stub_path s p" by (simp add: stub_path_def)
    from write_stub_result(3) [OF ws True this] l3 show ?thesis by simp
  qed
  then show ?thesis using c by auto
qed

lemma makeTmpZipFile_try_collector_error:
  "collectJsDeps P (collector_argv s args p) (with_node_path options w) = Inl e \<Longrightarrow>
   makeTmpZipFile_try P fuel p args options s w = Some (r, options', w') \<Longrightarrow> r = Inl e"
  by (simp add: makeTmpZipFile_try_def Let_def)

lemma example_failing_setup:
  "collect_args example_no_tsify example_ts_options = Inl (Error ''Cannot find module tsify'')"
  "cache example_ts_options = Some (\<lambda>p. None)"
  "fst (tmp_dir example_platform ''aws-lambda-'' example_no_tmp_world) = Inl (SysError ''ENOENT'')"
  "collector_calls example_no_tmp_world = []"
  by (simp_all add: collect_args_def example_no_tsify_def example_ts_options_def
      example_options_def tmp_dir_def example_platform_def example_no_tmp_world_def
      example_world_def Let_def)

lemma example_missing_run:
  "map_option (\<lambda>x. collector_calls (snd (snd x)))
     (makeTmpZipFile example_platform 20 ''missing.js'' example_options example_world)
   = Some [[''--outdir'', ''/tmp/aws-lambda-0'', ''missing.js'']]"
  by code_simp

lemma example_stub_facts:
  "dirname ''lib/bar.js'' \<noteq> ''.''"
  "pp_name (parse ''lib/bar.js'') = ''bar''"
  "relative (proc_cwd example_world) []
     (path_join [pp_dir (parse ''lib/bar.js''), pp_name (parse ''lib/bar.js'')]) = ''lib/bar''"
  "wf_tree (view (\<lambda>d. d) (\<lambda>a. a + 1000) (\<lambda>m. m + 1000) example_staged)"
  by code_simp+

text \<open>
  C1, as stated, fails. Between the test of the cache (line 91) and the call of the
  collector (line 109) stand \<^verbatim>\<open>require.resolve("tsify")\<close> (line 97, when a tsconfig is
  given) and \<^verbatim>\<open>tmp.dir\<close> (lines 101-102). When tsify is not installed, or the directory
  for temporary files is missing, a call whose cache has no mapping for the entry path
  rejects with that error, and the collector has not been invoked.
\<close>

theorem makeTmpZipFile_miss_without_collector:
  "map_option (\<lambda>c. c ''lib/bar.js'') (cache example_ts_options) = Some None
   \<and> map_option (\<lambda>x. (fst x, collector_calls (snd (snd x))))
         (makeTmpZipFile example_no_tsify 20 ''lib/bar.js'' example_ts_options example_world)
       = Some (Inl (Error ''Cannot find module tsify''), [])
   \<and> map_option (\<lambda>c. c ''lib/bar.js'') (cache example_options) = Some None
   \<and> map_option (\<lambda>x. (fst x, collector_calls (snd (snd x))))
         (makeTmpZipFile example_platform 20 ''lib/bar.js'' example_options example_no_tmp_world)
       = Some (Inl (SysError ''ENOENT''), [])"
  by code_simp

text \<open>
  C1, amended. Let the cache of the options be \<open>c\<close>. When \<open>c\<close> maps the entry path to an
  archive path, \<^verbatim>\<open>_makeTmpZipFile\<close> returns that path and leaves the options and the whole
  state as they were: the collector is not invoked. When \<open>c\<close> has no mapping for the
  entry path: if tsify is asked for and not found, the call rejects with that error and
  nothing has changed; if \<^verbatim>\<open>tmp.dir\<close> fails, the call rejects with its error and the
  collector has not been invoked; otherwise a call that returns has invoked the collector
  once, with the staging directory, the arguments and the entry path, in the state with
  \<^verbatim>\<open>NODE_PATH\<close> set as the options ask. If the collector rejects, the call rejects with the
  same error. If the call rejects, the cache is as it was. If the call returns an
  archive path, the cache then maps the entry path to that path, the collector has
  resolved and left a tree in the staging directory, and the archive is a file at the
  returned path; when no directory of that tree lists a name twice, its bytes are what
  \<^verbatim>\<open>zip\<close> makes of that tree with the helper file added and all times 0. Given enough fuel
  for the walk, the call returns.
\<close>

theorem makeTmpZipFile_cache:
  "(cache options = Some c \<and> c p = Some z
      \<longrightarrow> makeTmpZipFile P fuel p options w = Some (Inr z, options, w))
   \<and> (cache options = Some c \<and> c p = None \<and> collect_args P options = Inl e
      \<longrightarrow> makeTmpZipFile P fuel p options w = Some (Inl e, options, w))
   \<and> (cache options = Some c \<and> c p = None
        \<and> collect_args P options = Inr (args, options1)
        \<and> tmp_dir P ''aws-lambda-'' w = (Inl e, w1)
      \<longrightarrow> makeTmpZipFile P fuel p options w = Some (Inl e, options1, w1)
         \<and> collector_calls w1 = collector_calls w)
   \<and> (cache options = Some c \<and> c p = None
        \<and> collect_args P options = Inr (args, options1)
        \<and> tmp_dir P ''aws-lambda-'' w = (Inr stageDir, w1)
        \<and> makeTmpZipFile P fuel p options w = Some (r, options', w')
      \<longrightarrow> collector_calls w' = collector_calls w @ [collector_argv stageDir args p]
         \<and> (\<forall>e'. collectJsDeps P (collector_argv stageDir args p) (with_node_path options1 w1)
                  = Inl e' \<longrightarrow> r = Inl e')
         \<and> (\<forall>e'. r = Inl e' \<longrightarrow> cache options' = Some c)
         \<and> (\<forall>z'. r = Inr z'
               \<longrightarrow> cache options' = Some (c(p \<mapsto> z'))
                  \<and> (\<exists>f t. collectJsDeps P (collector_argv stageDir args p)
                               (with_node_path options1 w1) = Inr f
                        \<and> lookup f stageDir = Some t
                        \<and> (\<exists>d. readFile (files w') z' = Inr d)
                        \<and> (wf_tree t \<longrightarrow>
                             (\<exists>t3 bytes.
                                (if dirname p \<noteq> ''.''
                                 then writeFile (content_view t) [pp_name (parse p) @ ''.js'']
                                        (stub_contents (relative (proc_cwd w) []
                                           (path_join [pp_dir (parse p), pp_name (parse p)]))) 0
                                 else Inr (content_view t)) = Inr t3
                                \<and> zip_tool P t3 = Inr (0, bytes)
                                \<and> readFile (files w') z' = Inr bytes)))))
   \<and> (\<exists>n. \<forall>k\<ge>n. makeTmpZipFile P k p options w \<noteq> None)"
proof (intro conjI impI)
  assume "cache options = Some c \<and> c p = Some z"
  then show "makeTmpZipFile P fuel p options w = Some (Inr z, options, w)"
    by (simp add: makeTmpZipFile_def)
next
  assume "cache options = Some c \<and> c p = None \<and> collect_args P options = Inl e"
  then show "makeTmpZipFile P fuel p options w = Some (Inl e, options, w)"
    by (simp add: makeTmpZipFile_def)
next
  assume a: "cache options = Some c \<and> c p = None
        \<and> collect_args P options = Inr (args, options1)
        \<and> tmp_dir P ''aws-lambda-'' w = (Inl e, w1)"
  then show "makeTmpZipFile P fuel p options w = Some (Inl e, options1, w1)"
    by (simp add: makeTmpZipFile_def)
  show "collector_calls w1 = collector_calls w"
    using tmp_dir_frame a by (auto simp: only_files_def)
next
  assume a: "cache options = Some c \<and> c p = None
        \<and> collect_args P options = Inr (args, options1)
        \<and> tmp_dir P ''aws-lambda-'' w = (Inr stageDir, w1)
        \<and> makeTmpZipFile P fuel p options w = Some (r, options', w')"
  then have miss: "(case cache options of None \<Rightarrow> None | Some c \<Rightarrow> c p) = None" by simp
  from a have td: "tmp_dir P ''aws-lambda-'' w = (Inr stageDir, w1)" by simp
  from a makeTmpZipFile_miss [OF miss, of P args options1 w stageDir w1 fuel r options' w']
  obtain w2 where tr: "makeTmpZipFile_try P fuel p args options1 stageDir w1 = Some (r, options', w2)"
    and w': "w' = w2\<lparr>env_NODE_PATH := Some (env_string (env_NODE_PATH w)),
                      unawaited_removes := unawaited_removes w2 @ [stageDir]\<rparr>"
    by blast
  have fw: "files w' = files w2" using w' by simp
  from makeTmpZipFile_try_result [OF tr]
  have of: "only_files ((with_node_path options1 w1)
            \<lparr>collector_calls := collector_calls w1 @ [collector_argv stageDir args p]\<rparr>) w2"
    and ok: "\<forall>z. r = Inr z \<longrightarrow>
           options' = (case cache options1 of None \<Rightarrow> options1
                       | Some c \<Rightarrow> options1\<lparr>cache := Some (c(p \<mapsto> z))\<rparr>)
           \<and> (\<exists>d. readFile (files w2) z = Inr d)"
    and bad: "\<forall>e. r = Inl e \<longrightarrow> options' = options1"
    by blast+
  have fr: "only_files w w1" using tmp_dir_frame [OF td] .
  have c1: "collector_calls w1 = collector_calls w" and cwd: "proc_cwd w1 = proc_cwd w"
    using fr by (simp_all add: only_files_def)
  have "collector_calls w2 = collector_calls w @ [collector_argv stageDir args p]"
    using of c1 by (simp add: only_files_def)
  then show "collector_calls w' = collector_calls w @ [collector_argv stageDir args p]"
    using w' by simp
  have co: "cache options1 = Some c" using collect_args_keeps a by metis
  show "\<forall>e'. collectJsDeps P (collector_argv stageDir args p) (with_node_path options1 w1)
                  = Inl e' \<longrightarrow> r = Inl e'"
    using makeTmpZipFile_try_collector_error tr by blast
  show "\<forall>e'. r = Inl e' \<longrightarrow> cache options' = Some c" using bad co by simp
  show "\<forall>z'. r = Inr z'
               \<longrightarrow> cache options' = Some (c(p \<mapsto> z'))
                  \<and> (\<exists>f t. collectJsDeps P (collector_argv stageDir args p)
                               (with_node_path options1 w1) = Inr f
                        \<and> lookup f stageDir = Some t
                        \<and> (\<exists>d. readFile (files w') z' = Inr d)
                        \<and> (wf_tree t \<longrightarrow>
                             (\<exists>t3 bytes.
                                (if dirname p \<noteq> ''.''
                                 then writeFile (content_view t) [pp_name (parse p) @ ''.js'']
                                        (stub_contents (relative (proc_cwd w) []
                                           (path_join [pp_dir (parse p), pp_name (parse p)]))) 0
                                 else Inr (content_view t)) = Inr t3
                                \<and> zip_tool P t3 = Inr (0, bytes)
                                \<and> readFile (files w') z' = Inr bytes)))"
  proof (intro allI impI)
    fix z' assume r: "r = Inr z'"
    from tr r have tr': "makeTmpZipFile_try P fuel p args options1 stageDir w1
        = Some (Inr z', options', w2)" by simp
    from makeTmpZipFile_try_staged [OF tr'] obtain f t where
      c: "collectJsDeps P (collector_argv stageDir args p) (with_node_path options1 w1) = Inr f"
      and t: "lookup f stageDir = Some t"
      by blast
    have ca: "cache options' = Some (c(p \<mapsto> z'))" using ok co r by simp
    have d: "\<exists>d. readFile (files w') z' = Inr d" using ok r fw by simp
    have ar: "\<exists>t3 bytes.
                (if dirname p \<noteq> ''.''
                 then writeFile (content_view t) [pp_name (parse p) @ ''.js'']
                        (stub_contents (relative (proc_cwd w) []
                           (path_join [pp_dir (parse p), pp_name (parse p)]))) 0
                 else Inr (content_view t)) = Inr t3
                \<and> zip_tool P t3 = Inr (0, bytes)
                \<and> readFile (files w') z' = Inr bytes"
      if wf: "wf_tree t"
      using makeTmpZipFile_try_archive [OF tr' c t wf tmp_dir_path [OF td]]
      unfolding cwd fw .
    show "cache options' = Some (c(p \<mapsto> z'))
                  \<and> (\<exists>f t. collectJsDeps P (collector_argv stageDir args p)
                               (with_node_path options1 w1) = Inr f
                        \<and> lookup f stageDir = Some t
                        \<and> (\<exists>d. readFile (files w') z' = Inr d)
                        \<and> (wf_tree t \<longrightarrow>
                             (\<exists>t3 bytes.
                                (if dirname p \<noteq> ''.''
                                 then writeFile (content_view t) [pp_name (parse p) @ ''.js'']
                                        (stub_contents (relative (proc_cwd w) []
                                           (path_join [pp_dir (parse p), pp_name (parse p)]))) 0
                                 else Inr (content_view t)) = Inr t3
                                \<and> zip_tool P t3 = Inr (0, bytes)
                                \<and> readFile (files w') z' = Inr bytes)))"
      using ca c t d ar by blast
  qed
next
  show "\<exists>n. \<forall>k\<ge>n. makeTmpZipFile P k p options w \<noteq> None" by (rule makeTmpZipFile_total)
qed

theorem makeTmpZipFile_cache_witness:
  "makeTmpZipFile example_platform 20 ''lib/bar.js'' example_cached example_world
     = Some (Inr [''tmp'', ''old.zip''], example_cached, example_world)
   \<and> makeTmpZipFile example_no_tsify 20 ''lib/bar.js'' example_ts_options example_world
     = Some (Inl (Error ''Cannot find module tsify''), example_ts_options, example_world)
   \<and> map_option (\<lambda>x. (fst x, collector_calls (snd (snd x))))
       (makeTmpZipFile example_platform 20 ''lib/bar.js'' example_options example_no_tmp_world)
     = Some (Inl (SysError ''ENOENT''), [])
   \<and> map_option (\<lambda>x. (fst x, collector_calls (snd (snd x)),
          map_option (\<lambda>c. c ''missing.js'') (cache (fst (snd x)))))
       (makeTmpZipFile example_platform 20 ''missing.js'' example_options example_world)
     = Some (Inl (Failure ''Cannot find module''),
             [[''--outdir'', ''/tmp/aws-lambda-0'', ''missing.js'']], Some None)
   \<and> map_option (\<lambda>x. (fst x, collector_calls (snd (snd x)),
          map_option (\<lambda>c. c ''lib/bar.js'') (cache (fst (snd x)))))
       (makeTmpZipFile example_platform 20 ''lib/bar.js'' example_options example_world)
     = Some (Inr [''tmp'', ''aws-lambda-1.zip''],
             collector_calls example_world @ [collector_argv [''tmp'', ''aws-lambda-0''] [] ''lib/bar.js''],
             Some (((\<lambda>p. None)(''lib/bar.js'' \<mapsto> [''tmp'', ''aws-lambda-1.zip''])) ''lib/bar.js''))
   \<and> (\<exists>t3. writeFile (content_view (view (\<lambda>d. d) (\<lambda>a. a + 1000) (\<lambda>m. m + 1000) example_staged))
                [''bar.js''] (stub_contents ''lib/bar'') 0 = Inr t3
          \<and> map_option (\<lambda>x. readFile (files (snd (snd x))) [''tmp'', ''aws-lambda-1.zip''])
               (makeTmpZipFile example_platform 20 ''lib/bar.js'' example_options example_world)
             = Some (Inr (example_render t3)))"
proof -
  let ?X = "makeTmpZipFile example_platform 20 ''lib/bar.js'' example_options example_world"
  let ?M = "makeTmpZipFile example_platform 20 ''missing.js'' example_options example_world"
  let ?s = "[''tmp'', ''aws-lambda-0'']"
  let ?t = "view (\<lambda>d. d) (\<lambda>a. a + 1000) (\<lambda>m. m + 1000) example_staged"
  obtain w1 where td: "tmp_dir example_platform ''aws-lambda-'' example_world = (Inr ?s, w1)"
    using example_setup(2) by (cases "tmp_dir example_platform ''aws-lambda-'' example_world") auto
  have hit: "cache example_cached = Some (\<lambda>p. if p = ''lib/bar.js'' then Some [''tmp'', ''old.zip''] else None)
      \<and> (if ''lib/bar.js'' = ''lib/bar.js'' then Some [''tmp'', ''old.zip''] else None) = Some [''tmp'', ''old.zip'']"
    by (simp add: example_cached_def)
  note inst = makeTmpZipFile_cache [where P = example_platform and fuel = 20 and w = example_world]
  from makeTmpZipFile_cache [where P = example_platform and fuel = 20 and w = example_world
      and p = "''lib/bar.js''" and options = example_cached and z = "[''tmp'', ''old.zip'']"
      and c = "\<lambda>p. if p = ''lib/bar.js'' then Some [''tmp'', ''old.zip''] else None"] hit
  have a: "makeTmpZipFile example_platform 20 ''lib/bar.js'' example_cached example_world
     = Some (Inr [''tmp'', ''old.zip''], example_cached, example_world)"
    by simp
  from makeTmpZipFile_cache [where P = example_no_tsify and fuel = 20 and w = example_world
      and p = "''lib/bar.js''" and options = example_ts_options and c = "\<lambda>p. None"
      and e = "Error ''Cannot find module tsify''"] example_failing_setup(1,2)
  have b: "makeTmpZipFile example_no_tsify 20 ''lib/bar.js'' example_ts_options example_world
     = Some (Inl (Error ''Cannot find module tsify''), example_ts_options, example_world)"
    by simp
  obtain v1 where tdf: "tmp_dir example_platform ''aws-lambda-'' example_no_tmp_world
      = (Inl (SysError ''ENOENT''), v1)"
    using example_failing_setup(3)
    by (cases "tmp_dir example_platform ''aws-lambda-'' example_no_tmp_world") auto
  from makeTmpZipFile_cache [where P = example_platform and fuel = 20 and w = example_no_tmp_world
      and p = "''lib/bar.js''" and options = example_options and c = "\<lambda>p. None"
      and e = "SysError ''ENOENT''" and args = "[]" and ?options1.0 = example_options
      and ?w1.0 = v1] example_setup(1,3) tdf
  have "makeTmpZipFile example_platform 20 ''lib/bar.js'' example_options example_no_tmp_world
      = Some (Inl (SysError ''ENOENT''), example_options, v1)
    \<and> collector_calls v1 = collector_calls example_no_tmp_world"
    by simp
  then have c: "map_option (\<lambda>x. (fst x, collector_calls (snd (snd x))))
       (makeTmpZipFile example_platform 20 ''lib/bar.js'' example_options example_no_tmp_world)
     = Some (Inl (SysError ''ENOENT''), [])"
    using example_failing_setup(4) by simp
  obtain rm om wm where M: "?M = Some (rm, om, wm)"
    using example_missing_run by (cases ?M) auto
  have cm: "collectJsDeps example_platform (collector_argv ?s [] ''missing.js'')
              (with_node_path example_options w1) = Inl (Failure ''Cannot find module'')"
    by (simp add: example_platform_def example_collect_def collector_argv_def)
  from makeTmpZipFile_cache [where P = example_platform and fuel = 20 and w = example_world
      and p = "''missing.js''" and options = example_options and c = "\<lambda>p. None"
      and args = "[]" and ?options1.0 = example_options and stageDir = ?s and ?w1.0 = w1
      and r = rm and options' = om and w' = wm] example_setup(1,3) td M cm
  have "collector_calls wm = collector_calls example_world @ [collector_argv ?s [] ''missing.js'']"
    and "rm = Inl (Failure ''Cannot find module'')"
    and "cache om = Some (\<lambda>p. None)"
    by simp_all
  then have d: "map_option (\<lambda>x. (fst x, collector_calls (snd (snd x)),
          map_option (\<lambda>c. c ''missing.js'') (cache (fst (snd x))))) ?M
     = Some (Inl (Failure ''Cannot find module''),
             [[''--outdir'', ''/tmp/aws-lambda-0'', ''missing.js'']], Some None)"
    using M example_missing_run by simp
  obtain r o' w' where X: "?X = Some (r, o', w')"
    using example_run by (cases ?X) auto
  have r: "r = Inr [''tmp'', ''aws-lambda-1.zip'']" using example_run X by simp
  from example_staged_trees(1) td example_setup(1)
  obtain f0 where f0: "collectJsDeps example_platform (collector_argv ?s [] ''lib/bar.js'')
        (with_node_path example_options w1) = Inr f0" and t0: "lookup f0 ?s = Some ?t"
    by (auto simp: staged_tree_def split: sum.splits)
  from makeTmpZipFile_cache [where P = example_platform and fuel = 20 and w = example_world
      and p = "''lib/bar.js''" and options = example_options and c = "\<lambda>p. None"
      and args = "[]" and ?options1.0 = example_options and stageDir = ?s and ?w1.0 = w1
      and r = r and options' = o' and w' = w'] example_setup(1,3) td X
  have e1: "collector_calls w' = collector_calls example_world @ [collector_argv ?s [] ''lib/bar.js'']"
    and e2: "cache o' = Some ((\<lambda>p. None)(''lib/bar.js'' \<mapsto> [''tmp'', ''aws-lambda-1.zip'']))"
    and e3: "\<exists>f t. collectJsDeps example_platform (collector_argv ?s [] ''lib/bar.js'')
                  (with_node_path example_options w1) = Inr f
              \<and> lookup f ?s = Some t
              \<and> (\<exists>d. readFile (files w') [''tmp'', ''aws-lambda-1.zip''] = Inr d)
              \<and> (wf_tree t \<longrightarrow>
                   (\<exists>t3 bytes.
                      (if dirname ''lib/bar.js'' \<noteq> ''.''
                       then writeFile (content_view t) [pp_name (parse ''lib/bar.js'') @ ''.js'']
                              (stub_contents (relative (proc_cwd example_world) []
                                 (path_join [pp_dir (parse ''lib/bar.js''),
                                             pp_name (parse ''lib/bar.js'')]))) 0
                       else Inr (content_view t)) = Inr t3
                      \<and> zip_tool example_platform t3 = Inr (0, bytes)
                      \<and> readFile (files w') [''tmp'', ''aws-lambda-1.zip''] = Inr bytes))"
    using r by auto
  from e3 f0 t0 example_stub_facts(4) obtain t3 bytes where
    g1: "(if dirname ''lib/bar.js'' \<noteq> ''.''
           then writeFile (content_view ?t) [pp_name (parse ''lib/bar.js'') @ ''.js'']
                  (stub_contents (relative (proc_cwd example_world) []
                     (path_join [pp_dir (parse ''lib/bar.js''), pp_name (parse ''lib/bar.js'')]))) 0
           else Inr (content_view ?t)) = Inr t3"
    and g2: "zip_tool example_platform t3 = Inr (0, bytes)"
    and g3: "readFile (files w') [''tmp'', ''aws-lambda-1.zip''] = Inr bytes"
    by auto
  from g1 have h1: "writeFile (content_view ?t) [''bar.js''] (stub_contents ''lib/bar'') 0 = Inr t3"
    unfolding example_stub_facts(3) by (simp add: example_stub_facts(1,2))
  from g2 have "bytes = example_render t3" by (simp add: example_platform_def)
  then have h2: "map_option (\<lambda>x. readFile (files (snd (snd x))) [''tmp'', ''aws-lambda-1.zip'']) ?X
             = Some (Inr (example_render t3))"
    using g3 X by simp
  have e: "map_option (\<lambda>x. (fst x, collector_calls (snd (snd x)),
          map_option (\<lambda>c. c ''lib/bar.js'') (cache (fst (snd x))))) ?X
     = Some (Inr [''tmp'', ''aws-lambda-1.zip''],
             collector_calls example_world @ [collector_argv ?s [] ''lib/bar.js''],
             Some (((\<lambda>p. None)(''lib/bar.js'' \<mapsto> [''tmp'', ''aws-lambda-1.zip''])) ''lib/bar.js''))"
    using X r e1 e2 by simp
  show ?thesis using a b c d e h1 h2 by blast
qed

end
